theory Spec2Isabelle
  imports Main
begin

section \<open>The callback manager of langchain/src/callbacks/manager.ts\<close>

text \<open>
  The file manager.ts holds a mutable dispatcher (class CallbackManager), three run managers
  (CallbackManagerForLLMRun, CallbackManagerForChainRun, CallbackManagerForToolRun, all
  extending BaseRunManager) and the static procedure configure. The code shares JavaScript
  arrays between objects (a run manager receives the dispatcher's arrays, not copies), so
  the model keeps an explicit store: handler objects, arrays and dispatcher objects live
  at addresses, and every operation passes the store along.
\<close>

subsection \<open>Data\<close>

type_synonym href = nat
type_synonym aref = nat
type_synonym mref = nat

text \<open>
  The events a handler can receive, one constructor per optional method of a handler, with
  the payload of the call (payloads are kept as strings; handleLLMStart passes the name of
  the model and the prompts, handleChainStart and handleToolStart the name and the input).
\<close>

datatype event =
    LLMStart string "string list"
  | LLMNewToken string
  | LLMError string
  | LLMEnd string
  | ChainStart string string
  | ChainError string
  | ChainEnd string
  | AgentAction string
  | AgentEnd string
  | ToolStart string string
  | ToolError string
  | ToolEnd string
  | Text string

text \<open>
  A value thrown by a handler method. JavaScript throws any value: one that the template
  string of the catch block can convert to a string (an Error, a string, a number), kept
  as that string, or one that it cannot (a Symbol, an object without a string conversion),
  for which the conversion throws a TypeError.
\<close>

datatype thrown = Printable string | Unprintable

datatype error = TypeError

fun to_string :: "thrown \<Rightarrow> error + string" where
  "to_string (Printable msg) = Inr msg"
| "to_string Unprintable = Inl TypeError"

text \<open>
  What a call of a handler method does, as far as the manager can see: it returns (or its
  promise resolves), or it throws (or its promise rejects) with a value.
\<close>

datatype outcome = Returns | Throws thrown

text \<open>
  A handler object. \<open>name\<close> is the stable name compared by configure, \<open>className\<close> is
  \<open>handler.constructor.name\<close> (used in the logged line only), the three flags are the
  suppression flags read by the fan-out, and \<open>callback e runId parentRunId\<close> is the
  optional method for the event \<open>e\<close>: \<open>None\<close> when the handler does not define
  it (the call \<open>handler.handleX?.(...)\<close> is then skipped), otherwise what the call does.
\<close>

record BaseCallbackHandler =
  name :: string
  className :: string
  ignoreLLM :: bool
  ignoreChain :: bool
  ignoreAgent :: bool
  callback :: "event \<Rightarrow> string \<Rightarrow> string option \<Rightarrow> outcome option"

text \<open>The fields of class CallbackManager (\<open>parentRunId\<close> is the private \<open>_parentRunId\<close>).\<close>

record CallbackManager =
  handlers :: aref
  inheritableHandlers :: aref
  parentRunId :: "string option"

text \<open>
  The fields of class BaseRunManager, all readonly. The two array fields hold the
  references the constructor was given.
\<close>

record BaseRunManager =
  runId :: string
  handlers_rm :: aref
  inheritableHandlers_rm :: aref
  parentRunId_rm :: "string option"

record CallbackManagerOptions =
  verbose :: "bool option"
  tracing :: "bool option"

text \<open>
  The store. \<open>objs\<close>, \<open>arrs\<close> and \<open>mgrs\<close> map addresses to handler objects, arrays
  of handler references and dispatcher objects; the three counters are the next free
  addresses. \<open>calls\<close> records every handler method that was invoked, with its arguments;
  \<open>console_error\<close> the lines written by \<open>console.error\<close>. \<open>uuid_source\<close> and
  \<open>uuid_count\<close> stand for \<open>uuidv4()\<close>, and \<open>LANGCHAIN_TRACING\<close> for
  \<open>process.env.LANGCHAIN_TRACING\<close> (\<open>None\<close> is undefined).
\<close>

record state =
  objs :: "href \<Rightarrow> BaseCallbackHandler"
  next_obj :: href
  arrs :: "aref \<Rightarrow> href list"
  next_arr :: aref
  mgrs :: "mref \<Rightarrow> CallbackManager"
  next_mgr :: mref
  calls :: "(href \<times> event \<times> string \<times> string option) list"
  console_error :: "string list"
  uuid_source :: "nat \<Rightarrow> string"
  uuid_count :: nat
  LANGCHAIN_TRACING :: "string option"

subsection \<open>Allocation\<close>

definition new_array :: "href list \<Rightarrow> state \<Rightarrow> aref \<times> state" where
  "new_array xs s =
     (next_arr s, s\<lparr>arrs := (arrs s)(next_arr s := xs), next_arr := Suc (next_arr s)\<rparr>)"

definition new_object :: "BaseCallbackHandler \<Rightarrow> state \<Rightarrow> href \<times> state" where
  "new_object h s =
     (next_obj s, s\<lparr>objs := (objs s)(next_obj s := h), next_obj := Suc (next_obj s)\<rparr>)"

definition push :: "aref \<Rightarrow> href \<Rightarrow> state \<Rightarrow> state" where
  "push a h s = s\<lparr>arrs := (arrs s)(a := arrs s a @ [h])\<rparr>"

definition uuidv4 :: "state \<Rightarrow> string \<times> state" where
  "uuidv4 s = (uuid_source s (uuid_count s), s\<lparr>uuid_count := Suc (uuid_count s)\<rparr>)"

subsection \<open>The fan-out\<close>

text \<open>
  \<open>await handler.handleX?.(args)\<close>: nothing happens when the method is absent; otherwise
  the call is recorded, and a throwing (rejecting) method makes the await throw. The body
  of a handler method is not part of manager.ts: a call is taken to leave the arrays, the
  dispatchers and the handler objects of the store as they are.
\<close>

definition await_call ::
  "href \<Rightarrow> event \<Rightarrow> string \<Rightarrow> string option \<Rightarrow> state \<Rightarrow> (thrown + unit) \<times> state" where
  "await_call handler ev rid prid s =
     (case callback (objs s handler) ev rid prid of
        None \<Rightarrow> (Inr (), s)
      | Some Returns \<Rightarrow> (Inr (), s\<lparr>calls := calls s @ [(handler, ev, rid, prid)]\<rparr>)
      | Some (Throws err) \<Rightarrow> (Inl err, s\<lparr>calls := calls s @ [(handler, ev, rid, prid)]\<rparr>))"

text \<open>
  The body of the async arrow function given to \<open>map\<close>:
  \<^verbatim>\<open>try { await handler.handleX?.(...) } catch (err) { console.error(`Error in handler ${handler.constructor.name}, handleX: ${err}`) }\<close>
  The catch block builds the line with a template string, outside any try: when the
  conversion of \<open>err\<close> throws, nothing is logged and the arrow function throws. The
  result is the settlement of the promise of the arrow function: \<open>Inl\<close> a rejection.
\<close>

definition try_catch ::
  "string \<Rightarrow> href \<Rightarrow> event \<Rightarrow> string \<Rightarrow> string option \<Rightarrow> state \<Rightarrow> (error + unit) \<times> state" where
  "try_catch mname handler ev rid prid s =
     (case await_call handler ev rid prid s of
        (Inr u, s1) \<Rightarrow> (Inr (), s1)
      | (Inl err, s1) \<Rightarrow>
          (case to_string err of
             Inl e \<Rightarrow> (Inl e, s1)
           | Inr msg \<Rightarrow>
               (Inr (), s1\<lparr>console_error := console_error s1 @
                  [''Error in handler '' @ className (objs s1 handler) @ '', '' @ mname @ '': '' @
                   msg]\<rparr>)))"

text \<open>
  \<open>Promise.all\<close> of the promises of a list of tasks: every task runs (no task is
  cancelled), and the result rejects with the first rejection, if there is one. The tasks
  are started in the order of the list, which is the order \<open>map\<close> calls the arrow
  function in; no claim below depends on the order in which they finish (every rejection
  is the same \<open>TypeError\<close>).
\<close>

fun Promise_all ::
  "(state \<Rightarrow> (error + unit) \<times> state) list \<Rightarrow> state \<Rightarrow> (error + unit) \<times> state" where
  "Promise_all [] s = (Inr (), s)"
| "Promise_all (t # ts) s =
     (case t s of (r, s1) \<Rightarrow>
        (case Promise_all ts s1 of (rs, s2) \<Rightarrow>
           ((case r of Inl e \<Rightarrow> Inl e | Inr u \<Rightarrow> rs), s2)))"

text \<open>
  The pattern every event method repeats:
  \<^verbatim>\<open>await Promise.all(this.handlers.map(async (handler) => { if (!handler.ignoreX) { try ... } }))\<close>
  \<open>ignore\<close> is the flag the method reads, \<open>mname\<close> the method name of the logged line,
  \<open>a\<close> the array \<open>this.handlers\<close>.
\<close>

definition fan_out ::
  "(BaseCallbackHandler \<Rightarrow> bool) \<Rightarrow> string \<Rightarrow> event \<Rightarrow> string \<Rightarrow> string option \<Rightarrow> aref \<Rightarrow>
     state \<Rightarrow> (error + unit) \<times> state" where
  "fan_out ignore mname ev rid prid a s =
     Promise_all
       (map (\<lambda>handler s'.
               if \<not> ignore (objs s' handler) then try_catch mname handler ev rid prid s'
               else (Inr (), s'))
            (arrs s a)) s"

subsection \<open>BaseRunManager and the three run managers\<close>

text \<open>handleText has no flag test: every handler of the array is tried.\<close>

definition handleText :: "BaseRunManager \<Rightarrow> string \<Rightarrow> state \<Rightarrow> (error + unit) \<times> state" where
  "handleText this text =
     fan_out (\<lambda>h. False) ''handleText'' (Text text) (runId this) (parentRunId_rm this)
       (handlers_rm this)"

definition handleLLMNewToken :: "BaseRunManager \<Rightarrow> string \<Rightarrow> state \<Rightarrow> (error + unit) \<times> state" where
  "handleLLMNewToken this token =
     fan_out ignoreLLM ''handleLLMNewToken'' (LLMNewToken token) (runId this)
       (parentRunId_rm this) (handlers_rm this)"

definition handleLLMError :: "BaseRunManager \<Rightarrow> string \<Rightarrow> state \<Rightarrow> (error + unit) \<times> state" where
  "handleLLMError this err =
     fan_out ignoreLLM ''handleLLMError'' (LLMError err) (runId this)
       (parentRunId_rm this) (handlers_rm this)"

definition handleLLMEnd :: "BaseRunManager \<Rightarrow> string \<Rightarrow> state \<Rightarrow> (error + unit) \<times> state" where
  "handleLLMEnd this output =
     fan_out ignoreLLM ''handleLLMEnd'' (LLMEnd output) (runId this)
       (parentRunId_rm this) (handlers_rm this)"

definition handleChainError :: "BaseRunManager \<Rightarrow> string \<Rightarrow> state \<Rightarrow> (error + unit) \<times> state" where
  "handleChainError this err =
     fan_out ignoreChain ''handleChainError'' (ChainError err) (runId this)
       (parentRunId_rm this) (handlers_rm this)"

definition handleChainEnd :: "BaseRunManager \<Rightarrow> string \<Rightarrow> state \<Rightarrow> (error + unit) \<times> state" where
  "handleChainEnd this output =
     fan_out ignoreChain ''handleChainEnd'' (ChainEnd output) (runId this)
       (parentRunId_rm this) (handlers_rm this)"

definition handleAgentAction :: "BaseRunManager \<Rightarrow> string \<Rightarrow> state \<Rightarrow> (error + unit) \<times> state" where
  "handleAgentAction this action =
     fan_out ignoreAgent ''handleAgentAction'' (AgentAction action) (runId this)
       (parentRunId_rm this) (handlers_rm this)"

definition handleAgentEnd :: "BaseRunManager \<Rightarrow> string \<Rightarrow> state \<Rightarrow> (error + unit) \<times> state" where
  "handleAgentEnd this action =
     fan_out ignoreAgent ''handleAgentEnd'' (AgentEnd action) (runId this)
       (parentRunId_rm this) (handlers_rm this)"

definition handleToolError :: "BaseRunManager \<Rightarrow> string \<Rightarrow> state \<Rightarrow> (error + unit) \<times> state" where
  "handleToolError this err =
     fan_out ignoreAgent ''handleToolError'' (ToolError err) (runId this)
       (parentRunId_rm this) (handlers_rm this)"

definition handleToolEnd :: "BaseRunManager \<Rightarrow> string \<Rightarrow> state \<Rightarrow> (error + unit) \<times> state" where
  "handleToolEnd this output =
     fan_out ignoreAgent ''handleToolEnd'' (ToolEnd output) (runId this)
       (parentRunId_rm this) (handlers_rm this)"

subsection \<open>CallbackManager\<close>

text \<open>The constructor: two new empty arrays and a new dispatcher object.\<close>

definition new_CallbackManager :: "string option \<Rightarrow> state \<Rightarrow> mref \<times> state" where
  "new_CallbackManager parentRunId_arg s =
     (case new_array [] s of (a1, s1) \<Rightarrow>
        (case new_array [] s1 of (a2, s2) \<Rightarrow>
           (next_mgr s2,
            s2\<lparr>mgrs := (mgrs s2)(next_mgr s2 :=
                  \<lparr>handlers = a1, inheritableHandlers = a2, parentRunId = parentRunId_arg\<rparr>),
               next_mgr := Suc (next_mgr s2)\<rparr>)))"

text \<open>
  addHandler pushes onto the arrays the dispatcher holds, in place. The default
  \<open>inherit = true\<close> of the source is passed as \<open>True\<close> by the callers below that leave
  the argument out.
\<close>

definition addHandler :: "mref \<Rightarrow> href \<Rightarrow> bool \<Rightarrow> state \<Rightarrow> state" where
  "addHandler this handler inherit s =
     (let s1 = push (handlers (mgrs s this)) handler s in
      if inherit then push (inheritableHandlers (mgrs s1 this)) handler s1 else s1)"

text \<open>
  removeHandler assigns two new arrays (\<open>filter\<close> builds a new array); the comparison
  \<open>!==\<close> of two objects is the comparison of their addresses.
\<close>

definition removeHandler :: "mref \<Rightarrow> href \<Rightarrow> state \<Rightarrow> state" where
  "removeHandler this handler s =
     (case new_array (filter (\<lambda>h. h \<noteq> handler) (arrs s (handlers (mgrs s this)))) s of
        (a1, s1) \<Rightarrow>
          (let s2 = s1\<lparr>mgrs := (mgrs s1)(this := (mgrs s1 this)\<lparr>handlers := a1\<rparr>)\<rparr> in
           (case new_array
                   (filter (\<lambda>h. h \<noteq> handler) (arrs s2 (inheritableHandlers (mgrs s2 this)))) s2 of
              (a2, s3) \<Rightarrow>
                s3\<lparr>mgrs := (mgrs s3)(this := (mgrs s3 this)\<lparr>inheritableHandlers := a2\<rparr>)\<rparr>)))"

text \<open>
  setHandlers assigns two new empty arrays and adds the handlers one by one. The argument
  is the content of the array the caller passes: the loop reads that array and writes only
  the two arrays created at the start of the call, so its content is the same at every
  step of the loop.
\<close>

definition setHandlers :: "mref \<Rightarrow> href list \<Rightarrow> bool \<Rightarrow> state \<Rightarrow> state" where
  "setHandlers this handlers_arg inherit s =
     (case new_array [] s of
        (a1, s1) \<Rightarrow>
          (let s2 = s1\<lparr>mgrs := (mgrs s1)(this := (mgrs s1 this)\<lparr>handlers := a1\<rparr>)\<rparr> in
           (case new_array [] s2 of
              (a2, s3) \<Rightarrow>
                (let s4 = s3\<lparr>mgrs := (mgrs s3)(this := (mgrs s3 this)\<lparr>inheritableHandlers := a2\<rparr>)\<rparr>
                 in fold (\<lambda>handler. addHandler this handler inherit) handlers_arg s4))))"

text \<open>
  The three start operations: the run identifier defaults to \<open>uuidv4()\<close>, the handlers are
  notified, and the run manager is built from \<open>this.handlers\<close> and
  \<open>this.inheritableHandlers\<close>, that is from the two array references.
\<close>

definition start_run ::
  "(BaseCallbackHandler \<Rightarrow> bool) \<Rightarrow> string \<Rightarrow> (string \<Rightarrow> event) \<Rightarrow> mref \<Rightarrow> string option \<Rightarrow>
     state \<Rightarrow> (error + BaseRunManager) \<times> state" where
  "start_run ignore mname ev this runId_arg s =
     (case (case runId_arg of None \<Rightarrow> uuidv4 s | Some r \<Rightarrow> (r, s)) of
        (rid, s0) \<Rightarrow>
          (case fan_out ignore mname (ev rid) rid (parentRunId (mgrs s0 this))
                  (handlers (mgrs s0 this)) s0 of
             (Inl e, s1) \<Rightarrow> (Inl e, s1)
           | (Inr u, s1) \<Rightarrow>
               (Inr \<lparr>runId = rid,
                     handlers_rm = handlers (mgrs s1 this),
                     inheritableHandlers_rm = inheritableHandlers (mgrs s1 this),
                     parentRunId_rm = parentRunId (mgrs s1 this)\<rparr>, s1)))"

definition handleLLMStart ::
  "mref \<Rightarrow> string \<Rightarrow> string list \<Rightarrow> string option \<Rightarrow> state \<Rightarrow> (error + BaseRunManager) \<times> state" where
  "handleLLMStart this llm prompts runId_arg =
     start_run ignoreLLM ''handleLLMStart'' (\<lambda>rid. LLMStart llm prompts) this runId_arg"

definition handleChainStart ::
  "mref \<Rightarrow> string \<Rightarrow> string \<Rightarrow> string option \<Rightarrow> state \<Rightarrow> (error + BaseRunManager) \<times> state" where
  "handleChainStart this chain inputs runId_arg =
     start_run ignoreChain ''handleChainStart'' (\<lambda>rid. ChainStart chain inputs) this runId_arg"

definition handleToolStart ::
  "mref \<Rightarrow> string \<Rightarrow> string \<Rightarrow> string option \<Rightarrow> state \<Rightarrow> (error + BaseRunManager) \<times> state" where
  "handleToolStart this tool input runId_arg =
     start_run ignoreAgent ''handleToolStart'' (\<lambda>rid. ToolStart tool input) this runId_arg"

text \<open>
  getChild of CallbackManagerForChainRun and of CallbackManagerForToolRun (the two bodies
  are the same text).
\<close>

definition getChild_ChainRun :: "BaseRunManager \<Rightarrow> state \<Rightarrow> mref \<times> state" where
  "getChild_ChainRun this s =
     (case new_CallbackManager (Some (runId this)) s of
        (manager, s1) \<Rightarrow>
          (manager, setHandlers manager (arrs s1 (inheritableHandlers_rm this)) True s1))"

definition getChild_ToolRun :: "BaseRunManager \<Rightarrow> state \<Rightarrow> mref \<times> state" where
  "getChild_ToolRun this s =
     (case new_CallbackManager (Some (runId this)) s of
        (manager, s1) \<Rightarrow>
          (manager, setHandlers manager (arrs s1 (inheritableHandlers_rm this)) True s1))"

text \<open>
  Modelled from the spec: the duplication operation \<open>handler.copy()\<close> of a handler, whose
  class (BaseCallbackHandler, in callbacks/base.ts) is not among the source files. The spec
  has it produce "an independent copy with the same configuration": a new object with the
  fields of the original.
\<close>

definition copy_handler :: "href \<Rightarrow> state \<Rightarrow> href \<times> state" where
  "copy_handler handler s = new_object (objs s handler) s"

text \<open>\<open>xs.map((handler) => handler.copy())\<close>, the copies made from left to right.\<close>

fun copy_all :: "href list \<Rightarrow> state \<Rightarrow> href list \<times> state" where
  "copy_all [] s = ([], s)"
| "copy_all (h # hs) s =
     (case copy_handler h s of (c, s1) \<Rightarrow>
        (case copy_all hs s1 of (cs, s2) \<Rightarrow> (c # cs, s2)))"

text \<open>
  copy. \<open>additionalHandlers\<close> is \<open>None\<close> when the caller passes undefined (configure
  passes its own, possibly undefined, \<open>localHandlers\<close>), in which case the default
  \<open>[]\<close> applies. setHandlers is called without \<open>inherit\<close>, hence with \<open>true\<close>.
\<close>

definition copy :: "mref \<Rightarrow> href list option \<Rightarrow> bool \<Rightarrow> state \<Rightarrow> mref \<times> state" where
  "copy this additionalHandlers inherit s =
     (case new_CallbackManager (parentRunId (mgrs s this)) s of
        (manager, s1) \<Rightarrow>
          (case copy_all (arrs s1 (handlers (mgrs s1 this))) s1 of
             (cs, s2) \<Rightarrow>
               (let s3 = setHandlers manager cs True s2 in
                (manager,
                 fold (\<lambda>handler s'.
                         case copy_handler handler s' of
                           (c, s'') \<Rightarrow> addHandler manager c inherit s'')
                      (case additionalHandlers of None \<Rightarrow> [] | Some hs \<Rightarrow> hs) s3))))"

text \<open>
  Modelled from the spec: \<open>new ConsoleCallbackHandler()\<close> (callbacks/handlers/console.ts
  is not among the source files). The spec calls it the console-trace handler with its own
  stable identity; the model gives it a name of its own, no suppression flag, and methods
  that return.
\<close>

definition ConsoleCallbackHandler :: BaseCallbackHandler where
  "ConsoleCallbackHandler =
     \<lparr>name = ''console_callback_handler'', className = ''ConsoleCallbackHandler'',
      ignoreLLM = False, ignoreChain = False, ignoreAgent = False,
      callback = (\<lambda>ev rid prid. Some Returns)\<rparr>"

text \<open>
  Modelled from the spec: \<open>await getTracingCallbackHandler()\<close>
  (callbacks/handlers/initialize.ts is not among the source files). The spec has it yield
  the tracing handler, whose stable identity is the one configure looks for, the name
  \<open>langchain_tracer\<close>.
\<close>

definition LangChainTracer :: BaseCallbackHandler where
  "LangChainTracer =
     \<lparr>name = ''langchain_tracer'', className = ''LangChainTracer'',
      ignoreLLM = False, ignoreChain = False, ignoreAgent = False,
      callback = (\<lambda>ev rid prid. Some Returns)\<rparr>"

definition getTracingCallbackHandler :: "state \<Rightarrow> href \<times> state" where
  "getTracingCallbackHandler s = new_object LangChainTracer s"

text \<open>
  The first argument of configure: a dispatcher or an array of handlers (\<open>None\<close> at the
  argument is undefined).
\<close>

datatype inheritable_source = Manager mref | HandlerList "href list"

text \<open>\<open>options?.verbose\<close> as a condition: true only for the value true.\<close>

definition verbose_requested :: "CallbackManagerOptions option \<Rightarrow> bool" where
  "verbose_requested options =
     (case options of None \<Rightarrow> False | Some opts \<Rightarrow> verbose opts = Some True)"

text \<open>
  configure, lines 421 to 430: the dispatcher built from the first two arguments. An
  array, even an empty one, and a dispatcher are truthy, so the test
  \<open>inheritableHandlers || localHandlers\<close> is that one of the two is not undefined. The
  result is \<open>None\<close> while \<open>callbackManager\<close> is undefined.
\<close>

definition configure_inherited ::
  "inheritable_source option \<Rightarrow> href list option \<Rightarrow> state \<Rightarrow> mref option \<times> state" where
  "configure_inherited inheritableHandlers_arg localHandlers s =
     (if inheritableHandlers_arg \<noteq> None \<or> localHandlers \<noteq> None then
        (case
           (case inheritableHandlers_arg of
              Some (Manager m) \<Rightarrow> (m, s)
            | Some (HandlerList hs) \<Rightarrow>
                (case new_CallbackManager None s of
                   (m, s') \<Rightarrow> (m, setHandlers m hs True s'))
            | None \<Rightarrow>
                (case new_CallbackManager None s of
                   (m, s') \<Rightarrow> (m, setHandlers m [] True s')))
         of (callbackManager, sa) \<Rightarrow>
           (case copy callbackManager localHandlers False sa of
              (m, sb) \<Rightarrow> (Some m, sb)))
      else (None, s))"

text \<open>
  configure, lines 431 to 455: the console handler and the tracer, added when asked for and
  when no handler of the dispatcher has their name, and the return.
\<close>

definition configure_ambient ::
  "CallbackManagerOptions option \<Rightarrow> mref option \<Rightarrow> state \<Rightarrow> mref option \<times> state" where
  "configure_ambient options callbackManager s1 =
     (if verbose_requested options \<or> LANGCHAIN_TRACING s1 \<noteq> None then
        (case (case callbackManager of
                 None \<Rightarrow> new_CallbackManager None s1
               | Some m \<Rightarrow> (m, s1))
         of (cm, s2) \<Rightarrow>
           (case new_object ConsoleCallbackHandler s2 of
              (consoleHandler, s3) \<Rightarrow>
                (let s4 =
                   (if verbose_requested options \<and>
                       \<not> list_ex (\<lambda>handler. name (objs s3 handler) = name (objs s3 consoleHandler))
                            (arrs s3 (handlers (mgrs s3 cm)))
                    then addHandler cm consoleHandler False s3 else s3);
                     s5 =
                   (if LANGCHAIN_TRACING s4 \<noteq> None \<and>
                       \<not> list_ex (\<lambda>handler. name (objs s4 handler) = ''langchain_tracer'')
                            (arrs s4 (handlers (mgrs s4 cm)))
                    then (case getTracingCallbackHandler s4 of
                            (tracer, s') \<Rightarrow> addHandler cm tracer True s')
                    else s4)
                 in (Some cm, s5))))
      else (callbackManager, s1))"

definition configure ::
  "inheritable_source option \<Rightarrow> href list option \<Rightarrow> CallbackManagerOptions option \<Rightarrow>
     state \<Rightarrow> mref option \<times> state" where
  "configure inheritableHandlers_arg localHandlers options s =
     (case configure_inherited inheritableHandlers_arg localHandlers s of
        (callbackManager, s1) \<Rightarrow> configure_ambient options callbackManager s1)"

section \<open>Notions the properties are stated with\<close>

text \<open>The calls made between two states, and the handlers one dispatch notifies.\<close>

definition new_calls :: "state \<Rightarrow> state \<Rightarrow> (href \<times> event \<times> string \<times> string option) list" where
  "new_calls s s' = drop (length (calls s)) (calls s')"

definition notified :: "(state \<Rightarrow> (error + unit) \<times> state) \<Rightarrow> state \<Rightarrow> href list" where
  "notified dispatch s = map fst (new_calls s (snd (dispatch s)))"

text \<open>
  A handler object is invoked by a fan-out when its flag does not suppress the event and it
  defines the method; it breaks the fan-out when, invoked, it throws a value that the
  catch block cannot print; the line it causes to be logged, if it throws one that the
  catch block can print.
\<close>

definition invoked ::
  "(BaseCallbackHandler \<Rightarrow> bool) \<Rightarrow> event \<Rightarrow> string \<Rightarrow> string option \<Rightarrow> BaseCallbackHandler \<Rightarrow> bool" where
  "invoked ignore ev rid prid hobj \<longleftrightarrow> \<not> ignore hobj \<and> callback hobj ev rid prid \<noteq> None"

definition breaks ::
  "(BaseCallbackHandler \<Rightarrow> bool) \<Rightarrow> event \<Rightarrow> string \<Rightarrow> string option \<Rightarrow> BaseCallbackHandler \<Rightarrow> bool" where
  "breaks ignore ev rid prid hobj \<longleftrightarrow>
     \<not> ignore hobj \<and> callback hobj ev rid prid = Some (Throws Unprintable)"

definition log_lines ::
  "(BaseCallbackHandler \<Rightarrow> bool) \<Rightarrow> string \<Rightarrow> event \<Rightarrow> string \<Rightarrow> string option \<Rightarrow>
     BaseCallbackHandler \<Rightarrow> string list" where
  "log_lines ignore mname ev rid prid hobj =
     (if ignore hobj then []
      else (case callback hobj ev rid prid of
              Some (Throws (Printable msg)) \<Rightarrow>
                [''Error in handler '' @ className hobj @ '', '' @ mname @ '': '' @ msg]
            | _ \<Rightarrow> []))"

definition delivered ::
  "(BaseCallbackHandler \<Rightarrow> bool) \<Rightarrow> event \<Rightarrow> string \<Rightarrow> string option \<Rightarrow>
     (href \<Rightarrow> BaseCallbackHandler) \<Rightarrow> href list \<Rightarrow> (href \<times> event \<times> string \<times> string option) list" where
  "delivered ignore ev rid prid ob hs =
     map (\<lambda>h. (h, ev, rid, prid)) (filter (\<lambda>h. invoked ignore ev rid prid (ob h)) hs)"

definition logged ::
  "(BaseCallbackHandler \<Rightarrow> bool) \<Rightarrow> string \<Rightarrow> event \<Rightarrow> string \<Rightarrow> string option \<Rightarrow>
     (href \<Rightarrow> BaseCallbackHandler) \<Rightarrow> href list \<Rightarrow> string list" where
  "logged ignore mname ev rid prid ob hs =
     concat (map (\<lambda>h. log_lines ignore mname ev rid prid (ob h)) hs)"

text \<open>
  How the promise of a fan-out over the handlers \<open>hs\<close> settles: it rejects as soon as
  one handler breaks it, and resolves otherwise.
\<close>

definition settlement ::
  "(BaseCallbackHandler \<Rightarrow> bool) \<Rightarrow> event \<Rightarrow> string \<Rightarrow> string option \<Rightarrow>
     (href \<Rightarrow> BaseCallbackHandler) \<Rightarrow> href list \<Rightarrow> error + unit" where
  "settlement ignore ev rid prid ob hs =
     (if list_ex (\<lambda>h. breaks ignore ev rid prid (ob h)) hs then Inl TypeError else Inr ())"

text \<open>The content of the two collections of a dispatcher.\<close>

definition handlers_of :: "state \<Rightarrow> mref \<Rightarrow> href list" where
  "handlers_of s m = arrs s (handlers (mgrs s m))"

definition inheritable_of :: "state \<Rightarrow> mref \<Rightarrow> href list" where
  "inheritable_of s m = arrs s (inheritableHandlers (mgrs s m))"

text \<open>The three registration operations as data, to speak of sequences of them.\<close>

datatype mutation = AddHandler href bool | RemoveHandler href | SetHandlers "href list" bool

fun mutate :: "mref \<Rightarrow> mutation \<Rightarrow> state \<Rightarrow> state" where
  "mutate d (AddHandler h inherit) s = addHandler d h inherit s"
| "mutate d (RemoveHandler h) s = removeHandler d h s"
| "mutate d (SetHandlers hs inherit) s = setHandlers d hs inherit s"

text \<open>
  A dispatcher object of the store is allocated: its address and the addresses of its two
  arrays are below the counters, and the two arrays are two objects.
\<close>

definition allocated :: "state \<Rightarrow> mref \<Rightarrow> bool" where
  "allocated s d \<longleftrightarrow>
     d < next_mgr s \<and>
     handlers (mgrs s d) \<noteq> inheritableHandlers (mgrs s d) \<and>
     handlers (mgrs s d) < next_arr s \<and> inheritableHandlers (mgrs s d) < next_arr s"

text \<open>
  What getChild is to return for the run manager \<open>this\<close> called in the store \<open>s\<close>: a
  dispatcher object that did not exist in \<open>s\<close>, whose parent run is the run of
  \<open>this\<close>, and whose two collections both hold what the array
  \<open>this.inheritableHandlers\<close> holds in \<open>s\<close>.
\<close>

definition child_of :: "BaseRunManager \<Rightarrow> state \<Rightarrow> mref \<times> state \<Rightarrow> bool" where
  "child_of this s res \<longleftrightarrow>
     \<not> fst res < next_mgr s \<and>
     parentRunId (mgrs (snd res) (fst res)) = Some (runId this) \<and>
     handlers_of (snd res) (fst res) = arrs s (inheritableHandlers_rm this) \<and>
     inheritable_of (snd res) (fst res) = arrs s (inheritableHandlers_rm this)"

text \<open>
  A sequence of registration operations that is empty or starts with removeHandler or
  setHandlers, the two operations that give the dispatcher new arrays.
\<close>

fun detaching :: "mutation list \<Rightarrow> bool" where
  "detaching [] = True"
| "detaching (AddHandler h inherit # ops) = False"
| "detaching (op # ops) = True"

text \<open>
  The run manager \<open>this\<close> notifies the same handlers in the store \<open>s2\<close> as in the
  store \<open>s1\<close>: its array holds the same handlers, and each of its event methods, called
  with \<open>x\<close>, calls the same handlers.
\<close>

definition same_notified :: "BaseRunManager \<Rightarrow> string \<Rightarrow> state \<Rightarrow> state \<Rightarrow> bool" where
  "same_notified this x s1 s2 \<longleftrightarrow>
     arrs s2 (handlers_rm this) = arrs s1 (handlers_rm this) \<and>
     notified (handleText this x) s2 = notified (handleText this x) s1 \<and>
     notified (handleLLMNewToken this x) s2 = notified (handleLLMNewToken this x) s1 \<and>
     notified (handleLLMError this x) s2 = notified (handleLLMError this x) s1 \<and>
     notified (handleLLMEnd this x) s2 = notified (handleLLMEnd this x) s1 \<and>
     notified (handleChainError this x) s2 = notified (handleChainError this x) s1 \<and>
     notified (handleChainEnd this x) s2 = notified (handleChainEnd this x) s1 \<and>
     notified (handleAgentAction this x) s2 = notified (handleAgentAction this x) s1 \<and>
     notified (handleAgentEnd this x) s2 = notified (handleAgentEnd this x) s1 \<and>
     notified (handleToolError this x) s2 = notified (handleToolError this x) s1 \<and>
     notified (handleToolEnd this x) s2 = notified (handleToolEnd this x) s1"

text \<open>
  The handlers \<open>cs\<close> of the store \<open>s'\<close> are duplicates of the handlers \<open>hs\<close> of
  the store \<open>s\<close>: as many, in the same order, each a new object of its own with the
  fields of the original.
\<close>

definition duplicates :: "state \<Rightarrow> href list \<Rightarrow> state \<Rightarrow> href list \<Rightarrow> bool" where
  "duplicates s hs s' cs \<longleftrightarrow>
     distinct cs \<and> list_all2 (\<lambda>h c. \<not> c < next_obj s \<and> objs s' c = objs s h) hs cs"

text \<open>
  The names of a list of handlers, and the number of them that carry the name configure
  looks for before it adds the tracer.
\<close>

definition names :: "state \<Rightarrow> href list \<Rightarrow> string list" where
  "names s hs = map (\<lambda>h. name (objs s h)) hs"

definition tracers :: "state \<Rightarrow> href list \<Rightarrow> nat" where
  "tracers s hs = count_list (names s hs) ''langchain_tracer''"

text \<open>
  The handlers the first two arguments of configure stand for, and the condition that they
  are objects of the store (a dispatcher that is allocated, handlers below the counter).
\<close>

definition locals :: "href list option \<Rightarrow> href list" where
  "locals l = (case l of None \<Rightarrow> [] | Some xs \<Rightarrow> xs)"

definition source_handlers :: "state \<Rightarrow> inheritable_source option \<Rightarrow> href list" where
  "source_handlers s i =
     (case i of None \<Rightarrow> [] | Some (HandlerList hs) \<Rightarrow> hs | Some (Manager d) \<Rightarrow> handlers_of s d)"

definition source_allocated :: "state \<Rightarrow> inheritable_source option \<Rightarrow> bool" where
  "source_allocated s i \<longleftrightarrow>
     (case i of Some (Manager d) \<Rightarrow> allocated s d | _ \<Rightarrow> True) \<and>
     list_all (\<lambda>h. h < next_obj s) (source_handlers s i)"

text \<open>
  The store \<open>s1\<close> holds a dispatcher \<open>m\<close> built since the store \<open>s\<close>: its arrays
  are new, what \<open>s\<close> had allocated is unchanged, and its handlers carry the names of
  the handlers \<open>hs\<close> of \<open>s\<close>.
\<close>

definition based_on :: "state \<Rightarrow> href list \<Rightarrow> mref \<Rightarrow> state \<Rightarrow> bool" where
  "based_on s hs m s1 \<longleftrightarrow>
     next_mgr s \<le> m \<and> allocated s1 m \<and>
     next_arr s \<le> handlers (mgrs s1 m) \<and> next_arr s \<le> inheritableHandlers (mgrs s1 m) \<and>
     next_arr s \<le> next_arr s1 \<and> next_mgr s \<le> next_mgr s1 \<and> next_obj s \<le> next_obj s1 \<and>
     (\<forall>a<next_arr s. arrs s1 a = arrs s a) \<and>
     (\<forall>m'<next_mgr s. mgrs s1 m' = mgrs s m') \<and>
     (\<forall>r<next_obj s. objs s1 r = objs s r) \<and>
     LANGCHAIN_TRACING s1 = LANGCHAIN_TRACING s \<and>
     list_all (\<lambda>h. h < next_obj s1) (handlers_of s1 m) \<and>
     names s1 (handlers_of s1 m) = names s hs"

subsection \<open>A store to evaluate on\<close>

text \<open>
  Four handlers: 0 returns, 1 throws on every event, 2 returns and sets all three
  suppression flags but the agent one, 3 returns and is not registered. One dispatcher, 0,
  with the handlers \<open>[0, 1, 2]\<close> of which \<open>[0]\<close> is inheritable, and a run
  manager on its arrays.
\<close>

definition ex_handler :: "string \<Rightarrow> bool \<Rightarrow> bool \<Rightarrow> bool \<Rightarrow> outcome \<Rightarrow> BaseCallbackHandler" where
  "ex_handler n l c a oc =
     \<lparr>name = n, className = n, ignoreLLM = l, ignoreChain = c, ignoreAgent = a,
      callback = (\<lambda>ev rid prid. Some oc)\<rparr>"

definition ex_state :: state where
  "ex_state =
     \<lparr>objs = (\<lambda>r. if r = 1 then ex_handler ''B'' False False False (Throws (Printable ''boom''))
                  else if r = 2 then ex_handler ''C'' True True False Returns
                  else if r = 3 then ex_handler ''D'' False False False Returns
                  else ex_handler ''A'' False False False Returns),
      next_obj = 4,
      arrs = (\<lambda>a. if a = 0 then [0, 1, 2] else if a = 1 then [0] else []),
      next_arr = 2,
      mgrs = (\<lambda>m. \<lparr>handlers = 0, inheritableHandlers = 1, parentRunId = None\<rparr>),
      next_mgr = 1,
      calls = [],
      console_error = [],
      uuid_source = (\<lambda>n. replicate (Suc n) CHR ''u''),
      uuid_count = 0,
      LANGCHAIN_TRACING = None\<rparr>"

definition ex_rm :: BaseRunManager where
  "ex_rm = \<lparr>runId = ''r1'', handlers_rm = 0, inheritableHandlers_rm = 1, parentRunId_rm = None\<rparr>"

text \<open>
  The example store with handler 1 throwing a Symbol, as in
  \<^verbatim>\<open>handleLLMEnd() { throw Symbol("boom") }\<close>.
\<close>

definition ex_symbol :: state where
  "ex_symbol =
     ex_state\<lparr>objs := (objs ex_state)(1 := ex_handler ''B'' False False False (Throws Unprintable))\<rparr>"

text \<open>
  The example store with tracing switched on in the environment, and with handler 3 a
  tracing handler.
\<close>

definition ex_traced :: state where
  "ex_traced = ex_state\<lparr>objs := (objs ex_state)(3 := LangChainTracer),
                         LANGCHAIN_TRACING := Some ''true''\<rparr>"

section \<open>Properties\<close>

subsection \<open>What a fan-out does\<close>

lemma try_catch_eq:
  "try_catch mname h ev rid prid s =
     ((if callback (objs s h) ev rid prid = Some (Throws Unprintable) then Inl TypeError else Inr ()),
      s\<lparr>calls := calls s @ (if callback (objs s h) ev rid prid \<noteq> None then [(h, ev, rid, prid)] else []),
        console_error := console_error s @ log_lines (\<lambda>x. False) mname ev rid prid (objs s h)\<rparr>)"
proof (cases "callback (objs s h) ev rid prid")
  case None
  then show ?thesis
    by (simp add: try_catch_def await_call_def log_lines_def)
next
  case (Some oc)
  show ?thesis
  proof (cases oc)
    case Returns
    with Some show ?thesis
      by (simp add: try_catch_def await_call_def log_lines_def)
  next
    case (Throws v)
    with Some show ?thesis
      by (cases v) (simp_all add: try_catch_def await_call_def log_lines_def)
  qed
qed

lemma Promise_all_tasks:
  "Promise_all
     (map (\<lambda>handler s'.
             if \<not> ignore (objs s' handler) then try_catch mname handler ev rid prid s'
             else (Inr (), s')) hs) s =
   (settlement ignore ev rid prid (objs s) hs,
    s\<lparr>calls := calls s @ delivered ignore ev rid prid (objs s) hs,
      console_error := console_error s @ logged ignore mname ev rid prid (objs s) hs\<rparr>)"
proof (induction hs arbitrary: s)
  case Nil
  show ?case by (simp add: delivered_def logged_def settlement_def)
next
  case (Cons h hs)
  let ?hd = "objs s h"
  show ?case
  proof (cases "ignore ?hd")
    case True
    then have "\<not> invoked ignore ev rid prid ?hd" "\<not> breaks ignore ev rid prid ?hd"
      and "log_lines ignore mname ev rid prid ?hd = []"
      by (simp_all add: invoked_def breaks_def log_lines_def)
    with True show ?thesis
      by (simp add: Cons.IH delivered_def logged_def settlement_def)
  next
    case False
    then have l: "log_lines ignore mname ev rid prid ?hd = log_lines (\<lambda>x. False) mname ev rid prid ?hd"
      and i: "invoked ignore ev rid prid ?hd \<longleftrightarrow> callback ?hd ev rid prid \<noteq> None"
      and b: "breaks ignore ev rid prid ?hd \<longleftrightarrow> callback ?hd ev rid prid = Some (Throws Unprintable)"
      by (simp_all add: invoked_def breaks_def log_lines_def)
    from False show ?thesis
      by (simp add: try_catch_eq Cons.IH delivered_def logged_def settlement_def l i b)
  qed
qed

lemma fan_out_eq:
  "fan_out ignore mname ev rid prid a s =
   (settlement ignore ev rid prid (objs s) (arrs s a),
    s\<lparr>calls := calls s @ delivered ignore ev rid prid (objs s) (arrs s a),
      console_error :=
        console_error s @ logged ignore mname ev rid prid (objs s) (arrs s a)\<rparr>)"
  unfolding fan_out_def by (rule Promise_all_tasks)

lemma fan_out_new_calls:
  "new_calls s (snd (fan_out ignore mname ev rid prid a s)) =
     delivered ignore ev rid prid (objs s) (arrs s a)"
  by (simp add: fan_out_eq new_calls_def)

lemma fan_out_settles:
  "fst (fan_out ignore mname ev rid prid a s) = settlement ignore ev rid prid (objs s) (arrs s a)"
  by (simp add: fan_out_eq)

lemma start_run_eq:
  "start_run ignore mname ev this runId_arg s =
     (case (case runId_arg of None \<Rightarrow> uuidv4 s | Some r \<Rightarrow> (r, s)) of
        (rid, s0) \<Rightarrow>
          ((case settlement ignore (ev rid) rid (parentRunId (mgrs s this)) (objs s)
                   (arrs s (handlers (mgrs s this))) of
              Inl e \<Rightarrow> Inl e
            | Inr u \<Rightarrow>
                Inr \<lparr>runId = rid,
                     handlers_rm = handlers (mgrs s this),
                     inheritableHandlers_rm = inheritableHandlers (mgrs s this),
                     parentRunId_rm = parentRunId (mgrs s this)\<rparr>),
           s0\<lparr>calls := calls s @
                  delivered ignore (ev rid) rid (parentRunId (mgrs s this)) (objs s)
                    (arrs s (handlers (mgrs s this))),
               console_error := console_error s @
                  logged ignore mname (ev rid) rid (parentRunId (mgrs s this)) (objs s)
                    (arrs s (handlers (mgrs s this)))\<rparr>))"
  by (cases runId_arg)
     (simp_all add: start_run_def fan_out_eq uuidv4_def split: sum.split)

subsection \<open>Failure of a handler\<close>

text \<open>
  Claim C1 says that a dispatch resolves, and reaches the other handlers, whenever a
  handler throws. The code reaches the other handlers (\<open>fan_out_new_calls\<close>: the calls
  made do not depend on what any handler throws), but it does not always resolve: the
  catch block converts the thrown value to a string, and for a value that has no string
  conversion that throws inside the catch block (\<open>fan_out_settles\<close>). On the example
  store where handler 1 throws a Symbol, handleLLMEnd, handleText and handleChainStart
  reject with the TypeError, after calling every handler their flag lets through.
\<close>

theorem unprintable_error_rejects_dispatch:
  "callback (objs ex_symbol 1) (LLMEnd ''out'') ''r1'' None = Some (Throws Unprintable) \<and>
   fst (handleLLMEnd ex_rm ''out'' ex_symbol) = Inl TypeError \<and>
   notified (handleLLMEnd ex_rm ''out'') ex_symbol = [0, 1] \<and>
   fst (handleText ex_rm ''text'' ex_symbol) = Inl TypeError \<and>
   notified (handleText ex_rm ''text'') ex_symbol = [0, 1, 2] \<and>
   fst (handleChainStart 0 ''chain'' ''in'' (Some ''r2'') ex_symbol) = Inl TypeError"
  by (simp add: ex_symbol_def ex_state_def ex_rm_def ex_handler_def notified_def new_calls_def
        handleLLMEnd_def handleText_def handleChainStart_def start_run_def
        fan_out_def try_catch_def await_call_def)

subsection \<open>Suppression flags\<close>

text \<open>
  Claim C8. handleText calls, with the text, the run identifier and the parent run
  identifier, exactly the handlers of the array of the run manager that define the method,
  each once and in the order of the array: no suppression flag is read.
\<close>

theorem handleText_reaches_every_handler:
  "new_calls s (snd (handleText this x s)) =
     map (\<lambda>h. (h, Text x, runId this, parentRunId_rm this))
       (filter (\<lambda>h. callback (objs s h) (Text x) (runId this) (parentRunId_rm this) \<noteq> None)
          (arrs s (handlers_rm this)))"
  by (simp add: handleText_def fan_out_new_calls delivered_def invoked_def)

text \<open>
  Claim C3 as stated fails for the two agent events: handler 2 of the example store has
  ignoreChain set and is called by handleAgentAction, which reads ignoreAgent.
\<close>

theorem pipeline_flag_counterexample:
  "ignoreChain (objs ex_state 2) \<and>
   (2, AgentAction ''act'', ''r1'', None)
     \<in> set (new_calls ex_state (snd (handleAgentAction ex_rm ''act'' ex_state)))"
  by (simp add: ex_state_def ex_rm_def ex_handler_def
        handleAgentAction_def fan_out_def try_catch_def await_call_def new_calls_def)

text \<open>
  Claim C3, amended. A handler with ignoreChain set is never called by handleChainEnd or
  handleChainError; a handler with ignoreAgent set is never called by handleAgentAction or
  handleAgentEnd. (The two agent events are gated by ignoreAgent, not by ignoreChain.)
\<close>

theorem suppression_respected:
  "(ignoreChain (objs s h) \<longrightarrow>
      h \<notin> set (notified (handleChainEnd this x) s) \<and>
      h \<notin> set (notified (handleChainError this x) s)) \<and>
   (ignoreAgent (objs s h) \<longrightarrow>
      h \<notin> set (notified (handleAgentAction this x) s) \<and>
      h \<notin> set (notified (handleAgentEnd this x) s))"
  by (auto simp add: notified_def handleChainEnd_def handleChainError_def handleAgentAction_def
        handleAgentEnd_def fan_out_new_calls delivered_def invoked_def)

theorem suppression_respected_witness:
  "ignoreChain (objs ex_state 2) \<and>
   2 \<notin> set (notified (handleChainEnd ex_rm ''out'') ex_state) \<and>
   notified (handleChainEnd ex_rm ''out'') ex_state = [0, 1]"
  using suppression_respected [of ex_state 2 ex_rm "''out''"]
  by (simp add: ex_state_def ex_rm_def ex_handler_def notified_def
        handleChainEnd_def fan_out_def try_catch_def await_call_def new_calls_def)

subsection \<open>What the registration operations do to the store\<close>

lemma state_arrs_cong: "(\<And>a. f a = g a) \<Longrightarrow> s\<lparr>arrs := f\<rparr> = s\<lparr>arrs := g\<rparr>"
  by (simp add: fun_eq_iff)

lemma new_CallbackManager_eq:
  "new_CallbackManager p s =
     (next_mgr s,
      s\<lparr>arrs := (arrs s)(next_arr s := [], Suc (next_arr s) := []),
        next_arr := Suc (Suc (next_arr s)),
        mgrs := (mgrs s)(next_mgr s :=
                  \<lparr>handlers = next_arr s, inheritableHandlers = Suc (next_arr s), parentRunId = p\<rparr>),
        next_mgr := Suc (next_mgr s)\<rparr>)"
  by (simp add: new_CallbackManager_def new_array_def)

lemma addHandler_eq:
  "addHandler m h inh s =
     s\<lparr>arrs := (if inh
                then ((arrs s)(handlers (mgrs s m) := arrs s (handlers (mgrs s m)) @ [h]))
                       (inheritableHandlers (mgrs s m) :=
                          ((arrs s)(handlers (mgrs s m) := arrs s (handlers (mgrs s m)) @ [h]))
                            (inheritableHandlers (mgrs s m)) @ [h])
                else (arrs s)(handlers (mgrs s m) := arrs s (handlers (mgrs s m)) @ [h]))\<rparr>"
  by (simp add: addHandler_def push_def Let_def)

lemma fold_addHandler:
  assumes "handlers (mgrs s m) \<noteq> inheritableHandlers (mgrs s m)"
  shows "fold (\<lambda>h. addHandler m h inh) hs s =
           s\<lparr>arrs := (arrs s)
                (handlers (mgrs s m) := arrs s (handlers (mgrs s m)) @ hs,
                 inheritableHandlers (mgrs s m) :=
                   arrs s (inheritableHandlers (mgrs s m)) @ (if inh then hs else []))\<rparr>"
  using assms
proof (induction hs arbitrary: s)
  case Nil
  then show ?case by simp
next
  case (Cons h hs)
  let ?s1 = "addHandler m h inh s"
  let ?a = "handlers (mgrs s m)" and ?b = "inheritableHandlers (mgrs s m)"
  have m1: "mgrs ?s1 = mgrs s"
    by (simp add: addHandler_eq)
  have d: "handlers (mgrs ?s1 m) \<noteq> inheritableHandlers (mgrs ?s1 m)"
    using Cons.prems by (simp add: m1)
  have a1: "arrs ?s1 = (arrs s)(?a := arrs s ?a @ [h], ?b := arrs s ?b @ (if inh then [h] else []))"
    using Cons.prems by (cases inh) (auto simp add: addHandler_eq fun_eq_iff)
  have upd: "?s1\<lparr>arrs := X\<rparr> = s\<lparr>arrs := X\<rparr>" for X
    by (simp add: addHandler_eq)
  have ih: "fold (\<lambda>h. addHandler m h inh) hs ?s1 =
              ?s1\<lparr>arrs := (arrs ?s1)
                (?a := arrs ?s1 ?a @ hs, ?b := arrs ?s1 ?b @ (if inh then hs else []))\<rparr>"
    using Cons.IH [OF d] unfolding m1 .
  have "fold (\<lambda>h. addHandler m h inh) (h # hs) s = fold (\<lambda>h. addHandler m h inh) hs ?s1"
    by simp
  also have "\<dots> = s\<lparr>arrs := (arrs ?s1)
                (?a := arrs ?s1 ?a @ hs, ?b := arrs ?s1 ?b @ (if inh then hs else []))\<rparr>"
    unfolding ih upd ..
  also have "\<dots> = s\<lparr>arrs := (arrs s)
                (?a := arrs s ?a @ h # hs, ?b := arrs s ?b @ (if inh then h # hs else []))\<rparr>"
    unfolding a1 using Cons.prems by (intro state_arrs_cong) simp
  finally show ?case .
qed

lemma setHandlers_eq:
  "setHandlers m hs inh s =
     s\<lparr>arrs := (arrs s)(next_arr s := hs, Suc (next_arr s) := (if inh then hs else [])),
       next_arr := Suc (Suc (next_arr s)),
       mgrs := (mgrs s)(m := (mgrs s m)\<lparr>handlers := next_arr s,
                                         inheritableHandlers := Suc (next_arr s)\<rparr>)\<rparr>"
  by (simp add: setHandlers_def new_array_def Let_def fold_addHandler)

lemma removeHandler_eq:
  assumes "inheritableHandlers (mgrs s m) < next_arr s"
  shows "removeHandler m h s =
     s\<lparr>arrs := (arrs s)
          (next_arr s := filter (\<lambda>x. x \<noteq> h) (arrs s (handlers (mgrs s m))),
           Suc (next_arr s) := filter (\<lambda>x. x \<noteq> h) (arrs s (inheritableHandlers (mgrs s m)))),
       next_arr := Suc (Suc (next_arr s)),
       mgrs := (mgrs s)(m := (mgrs s m)\<lparr>handlers := next_arr s,
                                         inheritableHandlers := Suc (next_arr s)\<rparr>)\<rparr>"
  using assms by (simp add: removeHandler_def new_array_def Let_def)

lemma mutate_allocated: "allocated s d \<Longrightarrow> allocated (mutate d op s) d"
  by (cases op) (auto simp add: allocated_def addHandler_eq removeHandler_eq setHandlers_eq)

lemma mutate_subset:
  assumes "allocated s d" and "set (inheritable_of s d) \<subseteq> set (handlers_of s d)"
  shows "set (inheritable_of (mutate d op s) d) \<subseteq> set (handlers_of (mutate d op s) d)"
proof (cases op)
  case (AddHandler h inherit)
  with assms show ?thesis
    by (auto simp add: allocated_def addHandler_eq inheritable_of_def handlers_of_def)
next
  case (RemoveHandler h)
  with assms show ?thesis
    by (auto simp add: allocated_def removeHandler_eq inheritable_of_def handlers_of_def)
next
  case (SetHandlers hs inherit)
  then show ?thesis
    by (auto simp add: setHandlers_eq inheritable_of_def handlers_of_def)
qed

lemma fold_mutate_subset:
  assumes "allocated s d" and "set (inheritable_of s d) \<subseteq> set (handlers_of s d)"
  shows "allocated (fold (mutate d) ops s) d \<and>
         set (inheritable_of (fold (mutate d) ops s) d)
           \<subseteq> set (handlers_of (fold (mutate d) ops s) d)"
  using assms
proof (induction ops arbitrary: s)
  case Nil
  then show ?case by simp
next
  case (Cons op ops)
  show ?case
    using Cons.IH [OF mutate_allocated [OF Cons.prems(1)] mutate_subset [OF Cons.prems]]
    by simp
qed

subsection \<open>The two collections of a dispatcher\<close>

text \<open>
  Claim C4. After any finite sequence of addHandler, removeHandler and setHandlers calls
  on a freshly constructed dispatcher, every handler of its inheritableHandlers array is a
  handler of its handlers array.
\<close>

theorem inheritable_subset_of_handlers:
  "set (inheritable_of
          (fold (mutate (fst (new_CallbackManager p s))) ops (snd (new_CallbackManager p s)))
          (fst (new_CallbackManager p s)))
   \<subseteq> set (handlers_of
          (fold (mutate (fst (new_CallbackManager p s))) ops (snd (new_CallbackManager p s)))
          (fst (new_CallbackManager p s)))"
proof -
  let ?d = "fst (new_CallbackManager p s)" and ?s0 = "snd (new_CallbackManager p s)"
  have "allocated ?s0 ?d"
    by (simp add: new_CallbackManager_eq allocated_def)
  moreover have "set (inheritable_of ?s0 ?d) \<subseteq> set (handlers_of ?s0 ?d)"
    by (simp add: new_CallbackManager_eq inheritable_of_def handlers_of_def)
  ultimately show ?thesis
    using fold_mutate_subset by blast
qed

subsection \<open>getChild\<close>

lemma getChild_ChainRun_eq:
  assumes "inheritableHandlers_rm rm < next_arr s"
  shows "getChild_ChainRun rm s =
     (next_mgr s,
      s\<lparr>arrs := (arrs s)(next_arr s := [], Suc (next_arr s) := [],
                        Suc (Suc (next_arr s)) := arrs s (inheritableHandlers_rm rm),
                        Suc (Suc (Suc (next_arr s))) := arrs s (inheritableHandlers_rm rm)),
        next_arr := Suc (Suc (Suc (Suc (next_arr s)))),
        mgrs := (mgrs s)(next_mgr s :=
                  \<lparr>handlers = Suc (Suc (next_arr s)),
                   inheritableHandlers = Suc (Suc (Suc (next_arr s))),
                   parentRunId = Some (runId rm)\<rparr>),
        next_mgr := Suc (next_mgr s)\<rparr>)"
  using assms by (simp add: getChild_ChainRun_def new_CallbackManager_eq setHandlers_eq)

lemma getChild_ToolRun_eq: "getChild_ToolRun rm s = getChild_ChainRun rm s"
  by (simp add: getChild_ToolRun_def getChild_ChainRun_def)

text \<open>
  Claim C5. For a pipeline or tool run manager whose inheritableHandlers array exists in
  the store, getChild returns a new dispatcher whose parent run identifier is the run
  identifier of the run manager and whose handlers and inheritableHandlers arrays both hold
  exactly the handlers of the inheritableHandlers array of the run manager.
\<close>

theorem getChild_derives_child:
  assumes "inheritableHandlers_rm this < next_arr s"
  shows "child_of this s (getChild_ChainRun this s) \<and> child_of this s (getChild_ToolRun this s)"
  by (simp add: getChild_ToolRun_eq getChild_ChainRun_eq [OF assms] child_of_def
        handlers_of_def inheritable_of_def)

theorem getChild_derives_child_witness:
  "inheritableHandlers_rm ex_rm < next_arr ex_state \<and>
   fst (getChild_ChainRun ex_rm ex_state) = 1 \<and>
   parentRunId (mgrs (snd (getChild_ChainRun ex_rm ex_state)) 1) = Some ''r1'' \<and>
   handlers_of (snd (getChild_ChainRun ex_rm ex_state)) 1 = [0] \<and>
   inheritable_of (snd (getChild_ToolRun ex_rm ex_state)) 1 = [0]"
proof -
  have a: "inheritableHandlers_rm ex_rm < next_arr ex_state"
    by (simp add: ex_rm_def ex_state_def)
  have f: "fst (getChild_ChainRun ex_rm ex_state) = 1"
    and g: "fst (getChild_ToolRun ex_rm ex_state) = 1"
    by (simp_all add: getChild_ToolRun_eq getChild_ChainRun_eq [OF a])
       (simp_all add: ex_state_def)
  have e: "arrs ex_state (inheritableHandlers_rm ex_rm) = [0]"
    by (simp add: ex_rm_def ex_state_def)
  show ?thesis
    using getChild_derives_child [OF a] a f g e
    by (simp add: child_of_def ex_rm_def)
qed

subsection \<open>Run managers and later changes of the dispatcher\<close>

lemma fan_out_notified:
  assumes "\<And>s. dispatch s = fan_out ignore mname ev rid prid a s"
  shows "notified dispatch s = map fst (delivered ignore ev rid prid (objs s) (arrs s a))"
  by (simp add: notified_def assms fan_out_new_calls)

lemma same_notifiedI:
  assumes "arrs s2 (handlers_rm this) = arrs s1 (handlers_rm this)" and "objs s2 = objs s1"
  shows "same_notified this x s1 s2"
  unfolding same_notified_def
  using assms
  by (simp add: fan_out_notified [of _ _ _ _ _ _ "handlers_rm this"]
        handleText_def handleLLMNewToken_def handleLLMError_def handleLLMEnd_def
        handleChainError_def handleChainEnd_def handleAgentAction_def handleAgentEnd_def
        handleToolError_def handleToolEnd_def)

lemma mutate_frame:
  assumes "allocated s d" and "n \<le> handlers (mgrs s d)" and "n \<le> inheritableHandlers (mgrs s d)"
  shows "allocated (mutate d op s) d \<and>
         n \<le> handlers (mgrs (mutate d op s) d) \<and>
         n \<le> inheritableHandlers (mgrs (mutate d op s) d) \<and>
         (\<forall>a<n. arrs (mutate d op s) a = arrs s a) \<and>
         objs (mutate d op s) = objs s"
  using assms
  by (cases op) (auto simp add: allocated_def addHandler_eq removeHandler_eq setHandlers_eq)

lemma fold_mutate_frame:
  assumes "allocated s d" and "n \<le> handlers (mgrs s d)" and "n \<le> inheritableHandlers (mgrs s d)"
  shows "(\<forall>a<n. arrs (fold (mutate d) ops s) a = arrs s a) \<and>
         objs (fold (mutate d) ops s) = objs s"
  using assms
proof (induction ops arbitrary: s)
  case Nil
  then show ?case by simp
next
  case (Cons op ops)
  from mutate_frame [OF Cons.prems, of op]
  have 1: "allocated (mutate d op s) d"
    and 2: "n \<le> handlers (mgrs (mutate d op s) d)"
    and 3: "n \<le> inheritableHandlers (mgrs (mutate d op s) d)"
    and 4: "\<forall>a<n. arrs (mutate d op s) a = arrs s a"
    and 5: "objs (mutate d op s) = objs s"
    by simp_all
  from Cons.IH [OF 1 2 3] 4 5 show ?case by simp
qed

lemma detaching_frame:
  assumes "allocated s d" and "detaching ops"
  shows "(\<forall>a<next_arr s. arrs (fold (mutate d) ops s) a = arrs s a) \<and>
         objs (fold (mutate d) ops s) = objs s"
proof (cases ops)
  case Nil
  then show ?thesis by simp
next
  case (Cons op rest)
  let ?s1 = "mutate d op s"
  from assms(2) Cons have "\<forall>h i. op \<noteq> AddHandler h i"
    by auto
  with assms(1) have 1: "allocated ?s1 d"
    and 2: "next_arr s \<le> handlers (mgrs ?s1 d)"
    and 3: "next_arr s \<le> inheritableHandlers (mgrs ?s1 d)"
    and 4: "\<forall>a<next_arr s. arrs ?s1 a = arrs s a"
    and 5: "objs ?s1 = objs s"
    by (cases op; simp add: allocated_def removeHandler_eq setHandlers_eq)+
  from fold_mutate_frame [OF 1 2 3, of rest] 4 5 Cons show ?thesis by simp
qed

lemma fold_mutate_allocated:
  assumes "allocated s d"
  shows "allocated (fold (mutate d) ops s) d \<and> next_arr s \<le> next_arr (fold (mutate d) ops s)"
  using assms
proof (induction ops arbitrary: s)
  case Nil
  then show ?case by simp
next
  case (Cons op ops)
  have "next_arr s \<le> next_arr (mutate d op s)"
    using Cons.prems
    by (cases op) (simp_all add: allocated_def addHandler_eq removeHandler_eq setHandlers_eq)
  with Cons.IH [OF mutate_allocated [OF Cons.prems, of op]] show ?case
    by simp
qed

text \<open>
  A run manager returned by a start operation of an allocated dispatcher holds an array of
  the store, and both stay allocated whatever registration operations follow.
\<close>

lemma started_run_allocated:
  assumes "allocated s d"
    and "start = handleLLMStart d y ps r \<or> start = handleChainStart d y x r \<or>
         start = handleToolStart d y x r"
    and "fst (start s) = Inr this"
  shows "allocated (fold (mutate d) pre (snd (start s))) d \<and>
         handlers_rm this < next_arr (fold (mutate d) pre (snd (start s)))"
proof -
  obtain ignore mname ev where st: "start = start_run ignore mname ev d r"
    using assms(2)
    by (auto simp add: handleLLMStart_def handleChainStart_def handleToolStart_def fun_eq_iff)
  let ?s1 = "snd (start s)"
  have h: "handlers_rm this = handlers (mgrs s d)"
    using assms(3) unfolding st
    by (cases r) (auto simp add: start_run_eq uuidv4_def split: sum.splits)
  have same: "mgrs ?s1 = mgrs s" "next_arr ?s1 = next_arr s" "next_mgr ?s1 = next_mgr s"
    unfolding st by (cases r; simp add: start_run_eq uuidv4_def)+
  have al: "allocated ?s1 d"
    using assms(1) by (simp add: allocated_def same)
  have lt: "handlers_rm this < next_arr ?s1"
    using assms(1) by (simp add: allocated_def same h)
  from fold_mutate_allocated [OF al, of pre] lt show ?thesis
    by simp
qed

text \<open>
  Claim C2, amended. In any store in which the dispatcher \<open>d\<close> is allocated and the run
  manager holds an array of the store (as every run manager returned by a start operation
  of \<open>d\<close> does, at its creation and after any registration operations since), a sequence
  of registration operations on \<open>d\<close> that starts with removeHandler or setHandlers
  (whatever follows, addHandler included) does not change the handlers that the event
  methods of the run manager notify: the first operation gives \<open>d\<close> new arrays, and the
  run manager keeps the old ones.
\<close>

theorem snapshot_kept_after_detaching:
  assumes "allocated s1 d"
    and "handlers_rm this < next_arr s1"
    and "detaching ops"
  shows "same_notified this t s1 (fold (mutate d) ops s1)"
  using detaching_frame [OF assms(1) assms(3)] assms(2)
  by (intro same_notifiedI) simp_all

text \<open>
  Claim C2 as stated fails for addHandler: the run manager holds the very arrays of the
  dispatcher, and addHandler pushes onto them in place. On the example store the run
  manager notifies the handlers 0, 1, 2, and after \<open>addHandler\<close> of handler 3 on the
  dispatcher it notifies 0, 1, 2, 3.
\<close>

theorem snapshot_counterexample:
  "fst (handleLLMStart 0 ''llm'' [''p''] (Some ''r1'') ex_state) = Inr ex_rm \<and>
   notified (handleText ex_rm ''t'') (snd (handleLLMStart 0 ''llm'' [''p''] (Some ''r1'') ex_state))
     = [0, 1, 2] \<and>
   notified (handleText ex_rm ''t'')
       (addHandler 0 3 True (snd (handleLLMStart 0 ''llm'' [''p''] (Some ''r1'') ex_state)))
     = [0, 1, 2, 3]"
  by (simp add: ex_state_def ex_rm_def ex_handler_def notified_def handleLLMStart_def
        start_run_def addHandler_def push_def Let_def handleText_def
        fan_out_def try_catch_def await_call_def new_calls_def)

text \<open>
  On the example store: the run manager is started on dispatcher 0, handler 3 is added
  (the run manager now notifies 0, 1, 2, 3), then handler 1 is removed and handler 2 added
  again: the dispatcher holds 0, 2, 3, 2 and the run manager still notifies 0, 1, 2, 3.
\<close>

theorem snapshot_kept_after_detaching_witness:
  "allocated (addHandler 0 3 True (snd (handleLLMStart 0 ''llm'' [''p''] (Some ''r1'') ex_state))) 0 \<and>
   handlers_rm ex_rm
     < next_arr (addHandler 0 3 True (snd (handleLLMStart 0 ''llm'' [''p''] (Some ''r1'') ex_state))) \<and>
   detaching [RemoveHandler 1, AddHandler 2 True] \<and>
   fst (handleLLMStart 0 ''llm'' [''p''] (Some ''r1'') ex_state) = Inr ex_rm \<and>
   notified (handleText ex_rm ''t'')
     (addHandler 0 3 True (snd (handleLLMStart 0 ''llm'' [''p''] (Some ''r1'') ex_state)))
     = [0, 1, 2, 3] \<and>
   handlers_of
     (fold (mutate 0) [RemoveHandler 1, AddHandler 2 True]
        (addHandler 0 3 True (snd (handleLLMStart 0 ''llm'' [''p''] (Some ''r1'') ex_state))))
     0 = [0, 2, 3, 2] \<and>
   notified (handleText ex_rm ''t'')
     (fold (mutate 0) [RemoveHandler 1, AddHandler 2 True]
        (addHandler 0 3 True (snd (handleLLMStart 0 ''llm'' [''p''] (Some ''r1'') ex_state))))
     = [0, 1, 2, 3]"
proof -
  let ?start = "handleLLMStart 0 ''llm'' [''p''] (Some ''r1'')"
  let ?s1 = "addHandler 0 3 True (snd (?start ex_state))"
  let ?ops = "[RemoveHandler 1, AddHandler 2 True]"
  have a0: "allocated ex_state 0"
    by (simp add: allocated_def ex_state_def)
  have b: "fst (?start ex_state) = Inr ex_rm"
    by (simp add: ex_state_def ex_rm_def ex_handler_def handleLLMStart_def start_run_def
          fan_out_def try_catch_def await_call_def)
  have st: "?start = handleLLMStart 0 ''llm'' [''p''] (Some ''r1'') \<or>
            ?start = handleChainStart 0 ''llm'' ''x'' (Some ''r1'') \<or>
            ?start = handleToolStart 0 ''llm'' ''x'' (Some ''r1'')"
    by simp
  from started_run_allocated [OF a0 st b, of "[AddHandler 3 True]"]
  have a: "allocated ?s1 0" and lt: "handlers_rm ex_rm < next_arr ?s1"
    by simp_all
  have c: "detaching ?ops"
    by simp
  have d: "notified (handleText ex_rm ''t'') ?s1 = [0, 1, 2, 3]"
    by (simp add: ex_state_def ex_rm_def ex_handler_def notified_def handleLLMStart_def
          start_run_def addHandler_def push_def Let_def handleText_def
          fan_out_def try_catch_def await_call_def new_calls_def)
  have e: "handlers_of (fold (mutate 0) ?ops ?s1) 0 = [0, 2, 3, 2]"
    by (simp add: ex_state_def ex_rm_def ex_handler_def handleLLMStart_def
          start_run_def Let_def handlers_of_def removeHandler_def addHandler_def new_array_def
          push_def fan_out_def try_catch_def await_call_def)
  from snapshot_kept_after_detaching [OF a lt c, of "''t''"]
  have "notified (handleText ex_rm ''t'') (fold (mutate 0) ?ops ?s1) = [0, 1, 2, 3]"
    unfolding same_notified_def using d by simp
  with a lt c b d e show ?thesis by simp
qed

subsection \<open>copy\<close>

lemma copy_handler_eq:
  "copy_handler h s =
     (next_obj s, s\<lparr>objs := (objs s)(next_obj s := objs s h), next_obj := Suc (next_obj s)\<rparr>)"
  by (simp add: copy_handler_def new_object_def)

lemma copy_all_eq:
  "copy_all hs s =
     ([next_obj s..<next_obj s + length hs],
      s\<lparr>objs := objs (snd (copy_all hs s)), next_obj := next_obj s + length hs\<rparr>)"
proof (induction hs arbitrary: s)
  case Nil
  show ?case by simp
next
  case (Cons h hs)
  let ?s1 = "s\<lparr>objs := (objs s)(next_obj s := objs s h), next_obj := Suc (next_obj s)\<rparr>"
  have "copy_all (h # hs) s = (next_obj s # fst (copy_all hs ?s1), snd (copy_all hs ?s1))"
    by (simp add: copy_handler_eq case_prod_beta)
  moreover have "fst (copy_all hs ?s1) = [Suc (next_obj s)..<Suc (next_obj s) + length hs]"
    by (subst Cons.IH) simp
  moreover have "snd (copy_all hs ?s1) =
      s\<lparr>objs := objs (snd (copy_all hs ?s1)), next_obj := Suc (next_obj s) + length hs\<rparr>"
    by (subst Cons.IH) simp
  moreover have "[next_obj s..<next_obj s + length (h # hs)] =
      next_obj s # [Suc (next_obj s)..<Suc (next_obj s) + length hs]"
    by (simp add: upt_conv_Cons del: upt_Suc)
  ultimately show ?case
    by (simp del: upt_Suc copy_all.simps)
qed

lemma copy_all_fst: "fst (copy_all hs s) = [next_obj s..<next_obj s + length hs]"
  by (subst copy_all_eq) simp

lemma copy_all_snd:
  "snd (copy_all hs s) = s\<lparr>objs := objs (snd (copy_all hs s)), next_obj := next_obj s + length hs\<rparr>"
  by (subst copy_all_eq) simp

lemma copy_all_old: "r < next_obj s \<Longrightarrow> objs (snd (copy_all hs s)) r = objs s r"
proof (induction hs arbitrary: s)
  case Nil
  show ?case by simp
next
  case (Cons h hs)
  let ?s1 = "s\<lparr>objs := (objs s)(next_obj s := objs s h), next_obj := Suc (next_obj s)\<rparr>"
  have "snd (copy_all (h # hs) s) = snd (copy_all hs ?s1)"
    by (simp add: copy_handler_eq case_prod_beta)
  moreover have "objs (snd (copy_all hs ?s1)) r = objs ?s1 r"
    using Cons.prems by (intro Cons.IH) simp
  ultimately show ?case using Cons.prems by simp
qed

lemma copy_all_new:
  "i < length hs \<Longrightarrow> hs ! i < next_obj s \<Longrightarrow>
     objs (snd (copy_all hs s)) (next_obj s + i) = objs s (hs ! i)"
proof (induction hs arbitrary: s i)
  case Nil
  then show ?case by simp
next
  case (Cons h hs)
  let ?s1 = "s\<lparr>objs := (objs s)(next_obj s := objs s h), next_obj := Suc (next_obj s)\<rparr>"
  have sn: "snd (copy_all (h # hs) s) = snd (copy_all hs ?s1)"
    by (simp add: copy_handler_eq case_prod_beta)
  show ?case
  proof (cases i)
    case 0
    have "objs (snd (copy_all hs ?s1)) (next_obj s) = objs ?s1 (next_obj s)"
      by (intro copy_all_old) simp
    with 0 sn show ?thesis by simp
  next
    case (Suc j)
    with Cons.prems have j: "j < length hs" and a: "hs ! j < next_obj s"
      by simp_all
    have "objs (snd (copy_all hs ?s1)) (next_obj ?s1 + j) = objs ?s1 (hs ! j)"
      using j a by (intro Cons.IH) simp_all
    with Suc sn a show ?thesis by simp
  qed
qed

lemma copy_all_arrs_update:
  "copy_all hs (s\<lparr>arrs := X\<rparr>) = (fst (copy_all hs s), (snd (copy_all hs s))\<lparr>arrs := X\<rparr>)"
proof (induction hs arbitrary: s)
  case Nil
  show ?case by simp
next
  case (Cons h hs)
  let ?s1 = "s\<lparr>objs := (objs s)(next_obj s := objs s h), next_obj := Suc (next_obj s)\<rparr>"
  have step: "copy_handler h (s\<lparr>arrs := X\<rparr>) = (next_obj s, ?s1\<lparr>arrs := X\<rparr>)"
    by (simp add: copy_handler_eq)
  have "copy_all (h # hs) (s\<lparr>arrs := X\<rparr>) =
          (next_obj s # fst (copy_all hs (?s1\<lparr>arrs := X\<rparr>)), snd (copy_all hs (?s1\<lparr>arrs := X\<rparr>)))"
    by (subst copy_all.simps, subst step) (simp add: case_prod_beta)
  also have "\<dots> = (next_obj s # fst (copy_all hs ?s1), (snd (copy_all hs ?s1))\<lparr>arrs := X\<rparr>)"
    by (subst (1 2) Cons.IH) simp
  also have "\<dots> = (fst (copy_all (h # hs) s), (snd (copy_all (h # hs) s))\<lparr>arrs := X\<rparr>)"
    by (simp add: copy_handler_eq case_prod_beta)
  finally show ?case .
qed

lemma copy_all_addHandler:
  "copy_all hs (addHandler m c inh s) =
     (fst (copy_all hs s), addHandler m c inh (snd (copy_all hs s)))"
proof -
  let ?s' = "snd (copy_all hs s)"
  let ?A = "if inh
            then ((arrs s)(handlers (mgrs s m) := arrs s (handlers (mgrs s m)) @ [c]))
                   (inheritableHandlers (mgrs s m) :=
                      ((arrs s)(handlers (mgrs s m) := arrs s (handlers (mgrs s m)) @ [c]))
                        (inheritableHandlers (mgrs s m)) @ [c])
            else (arrs s)(handlers (mgrs s m) := arrs s (handlers (mgrs s m)) @ [c])"
  have a: "arrs ?s' = arrs s" and b: "mgrs ?s' = mgrs s"
    by (subst copy_all_snd, simp)+
  have e1: "addHandler m c inh s = s\<lparr>arrs := ?A\<rparr>"
    by (rule addHandler_eq)
  have e2: "addHandler m c inh ?s' = ?s'\<lparr>arrs := ?A\<rparr>"
    unfolding addHandler_eq [of m c inh ?s'] a b ..
  show ?thesis
    unfolding e1 e2 by (rule copy_all_arrs_update)
qed

lemma fold_copy_addHandler:
  "fold (\<lambda>handler s'. case copy_handler handler s' of (c, s'') \<Rightarrow> addHandler m c inh s'') hs s =
     fold (\<lambda>c. addHandler m c inh) (fst (copy_all hs s)) (snd (copy_all hs s))"
proof (induction hs arbitrary: s)
  case Nil
  show ?case by simp
next
  case (Cons h hs)
  let ?s1 = "s\<lparr>objs := (objs s)(next_obj s := objs s h), next_obj := Suc (next_obj s)\<rparr>"
  let ?F = "\<lambda>handler s'. case copy_handler handler s' of (c, s'') \<Rightarrow> addHandler m c inh s''"
  have "fold ?F (h # hs) s = fold ?F hs (addHandler m (next_obj s) inh ?s1)"
    by (simp add: copy_handler_eq)
  also have "\<dots> = fold (\<lambda>c. addHandler m c inh) (fst (copy_all hs ?s1))
                     (addHandler m (next_obj s) inh (snd (copy_all hs ?s1)))"
    by (simp add: Cons.IH copy_all_addHandler)
  also have "\<dots> = fold (\<lambda>c. addHandler m c inh) (fst (copy_all (h # hs) s)) (snd (copy_all (h # hs) s))"
    by (simp add: copy_handler_eq case_prod_beta)
  finally show ?case .
qed

lemma copy_all_proj:
  "arrs (snd (copy_all hs s)) = arrs s"
  "mgrs (snd (copy_all hs s)) = mgrs s"
  "next_arr (snd (copy_all hs s)) = next_arr s"
  "next_mgr (snd (copy_all hs s)) = next_mgr s"
  "next_obj (snd (copy_all hs s)) = next_obj s + length hs"
  "LANGCHAIN_TRACING (snd (copy_all hs s)) = LANGCHAIN_TRACING s"
  by (subst copy_all_snd, simp)+

lemma copy_unfold:
  "copy d additional inherit s =
     (fst (new_CallbackManager (parentRunId (mgrs s d)) s),
      (let s1 = snd (new_CallbackManager (parentRunId (mgrs s d)) s);
           m = fst (new_CallbackManager (parentRunId (mgrs s d)) s);
           hs = arrs s1 (handlers (mgrs s1 d));
           s2 = snd (copy_all hs s1);
           s3 = setHandlers m (fst (copy_all hs s1)) True s2;
           add = (case additional of None \<Rightarrow> [] | Some xs \<Rightarrow> xs);
           s4 = snd (copy_all add s3)
       in fold (\<lambda>c. addHandler m c inherit) (fst (copy_all add s3)) s4))"
  unfolding copy_def fold_copy_addHandler by (simp add: case_prod_beta Let_def)

lemma copy_facts:
  fixes s :: state and d :: mref and additional :: "href list option" and inherit :: bool
  assumes "allocated s d"
  defines "hs \<equiv> arrs s (handlers (mgrs s d))"
    and "add \<equiv> (case additional of None \<Rightarrow> [] | Some xs \<Rightarrow> xs)"
    and "s' \<equiv> snd (copy d additional inherit s)"
  shows "fst (copy d additional inherit s) = next_mgr s"
    and "mgrs s' = (mgrs s)(next_mgr s :=
           \<lparr>handlers = Suc (Suc (next_arr s)), inheritableHandlers = Suc (Suc (Suc (next_arr s))),
            parentRunId = parentRunId (mgrs s d)\<rparr>)"
    and "arrs s' = (arrs s)
           (next_arr s := [], Suc (next_arr s) := [],
            Suc (Suc (next_arr s)) :=
              [next_obj s..<next_obj s + length hs] @
              [next_obj s + length hs..<next_obj s + length hs + length add],
            Suc (Suc (Suc (next_arr s))) :=
              [next_obj s..<next_obj s + length hs] @
              (if inherit then [next_obj s + length hs..<next_obj s + length hs + length add]
               else []))"
    and "next_arr s' = Suc (Suc (Suc (Suc (next_arr s))))"
    and "next_mgr s' = Suc (next_mgr s)"
    and "next_obj s' = next_obj s + length hs + length add"
    and "LANGCHAIN_TRACING s' = LANGCHAIN_TRACING s"
    and "\<And>r. r < next_obj s \<Longrightarrow> objs s' r = objs s r"
    and "\<And>i. i < length hs \<Longrightarrow> hs ! i < next_obj s \<Longrightarrow> objs s' (next_obj s + i) = objs s (hs ! i)"
    and "\<And>j. j < length add \<Longrightarrow> add ! j < next_obj s \<Longrightarrow>
           objs s' (next_obj s + length hs + j) = objs s (add ! j)"
proof -
  let ?p = "parentRunId (mgrs s d)"
  define m where "m = fst (new_CallbackManager ?p s)"
  define s1 where "s1 = snd (new_CallbackManager ?p s)"
  define s2 where "s2 = snd (copy_all hs s1)"
  define cs where "cs = fst (copy_all hs s1)"
  define s3 where "s3 = setHandlers m cs True s2"
  define s4 where "s4 = snd (copy_all add s3)"
  define as where "as = fst (copy_all add s3)"
  have m: "m = next_mgr s"
    by (simp add: m_def new_CallbackManager_eq)
  have s1: "arrs s1 = (arrs s)(next_arr s := [], Suc (next_arr s) := [])"
    "mgrs s1 = (mgrs s)(next_mgr s :=
       \<lparr>handlers = next_arr s, inheritableHandlers = Suc (next_arr s), parentRunId = ?p\<rparr>)"
    "next_arr s1 = Suc (Suc (next_arr s))" "next_mgr s1 = Suc (next_mgr s)"
    "next_obj s1 = next_obj s" "objs s1 = objs s" "LANGCHAIN_TRACING s1 = LANGCHAIN_TRACING s"
    by (simp_all add: s1_def new_CallbackManager_eq)
  have hs1: "arrs s1 (handlers (mgrs s1 d)) = hs"
    using assms(1) by (simp add: s1 hs_def allocated_def)
  have cs: "cs = [next_obj s..<next_obj s + length hs]"
    by (simp add: cs_def copy_all_fst s1)
  have s2: "arrs s2 = arrs s1" "mgrs s2 = mgrs s1" "next_arr s2 = next_arr s1"
    "next_mgr s2 = next_mgr s1" "next_obj s2 = next_obj s + length hs"
    "LANGCHAIN_TRACING s2 = LANGCHAIN_TRACING s"
    by (simp_all add: s2_def copy_all_proj s1)
  have s3: "arrs s3 = (arrs s2)(next_arr s2 := cs, Suc (next_arr s2) := cs)"
    "mgrs s3 = (mgrs s2)(m := (mgrs s2 m)\<lparr>handlers := next_arr s2,
                                             inheritableHandlers := Suc (next_arr s2)\<rparr>)"
    "next_arr s3 = Suc (Suc (next_arr s2))" "next_mgr s3 = next_mgr s2"
    "next_obj s3 = next_obj s2" "objs s3 = objs s2" "LANGCHAIN_TRACING s3 = LANGCHAIN_TRACING s2"
    by (simp_all add: s3_def setHandlers_eq)
  have as: "as = [next_obj s + length hs..<next_obj s + length hs + length add]"
    by (simp add: as_def copy_all_fst s3 s2)
  have s4: "arrs s4 = arrs s3" "mgrs s4 = mgrs s3" "next_arr s4 = next_arr s3"
    "next_mgr s4 = next_mgr s3" "next_obj s4 = next_obj s + length hs + length add"
    "LANGCHAIN_TRACING s4 = LANGCHAIN_TRACING s"
    by (simp_all add: s4_def copy_all_proj s3 s2)
  have ne: "handlers (mgrs s4 m) \<noteq> inheritableHandlers (mgrs s4 m)"
    by (simp add: s4 s3)
  have res: "copy d additional inherit s = (m, fold (\<lambda>c. addHandler m c inherit) as s4)"
    unfolding copy_unfold
    by (simp add: Let_def m_def s1_def s2_def cs_def s3_def s4_def as_def add_def hs1 [unfolded s1_def])
  have s': "s' = s4\<lparr>arrs := (arrs s4)
                (handlers (mgrs s4 m) := arrs s4 (handlers (mgrs s4 m)) @ as,
                 inheritableHandlers (mgrs s4 m) :=
                   arrs s4 (inheritableHandlers (mgrs s4 m)) @ (if inherit then as else []))\<rparr>"
    unfolding s'_def res using fold_addHandler [OF ne] by simp
  show "fst (copy d additional inherit s) = next_mgr s"
    by (simp add: res m)
  show "mgrs s' = (mgrs s)(next_mgr s :=
           \<lparr>handlers = Suc (Suc (next_arr s)), inheritableHandlers = Suc (Suc (Suc (next_arr s))),
            parentRunId = parentRunId (mgrs s d)\<rparr>)"
    by (subst s') (simp add: s4 s3 s2 s1 m)
  show "arrs s' = (arrs s)
           (next_arr s := [], Suc (next_arr s) := [],
            Suc (Suc (next_arr s)) :=
              [next_obj s..<next_obj s + length hs] @
              [next_obj s + length hs..<next_obj s + length hs + length add],
            Suc (Suc (Suc (next_arr s))) :=
              [next_obj s..<next_obj s + length hs] @
              (if inherit then [next_obj s + length hs..<next_obj s + length hs + length add]
               else []))"
    by (subst s') (auto simp add: s4 s3 s2 s1 m cs as fun_eq_iff)
  show "next_arr s' = Suc (Suc (Suc (Suc (next_arr s))))"
    by (subst s') (simp add: s4 s3 s2 s1)
  show "next_mgr s' = Suc (next_mgr s)"
    by (subst s') (simp add: s4 s3 s2 s1)
  show "next_obj s' = next_obj s + length hs + length add"
    by (subst s') (simp add: s4)
  show "LANGCHAIN_TRACING s' = LANGCHAIN_TRACING s"
    by (subst s') (simp add: s4)
  have o': "objs s' = objs s4"
    by (subst s') simp
  have old4: "objs s4 r = objs s3 r" if "r < next_obj s + length hs" for r
    unfolding s4_def using that by (intro copy_all_old) (simp add: s3 s2)
  have old2: "objs s2 r = objs s r" if "r < next_obj s" for r
    unfolding s2_def using that by (subst copy_all_old) (simp_all add: s1)
  show "objs s' r = objs s r" if "r < next_obj s" for r
    using that by (simp add: o' old4 s3 old2)
  show "objs s' (next_obj s + i) = objs s (hs ! i)" if "i < length hs" "hs ! i < next_obj s" for i
  proof -
    have "objs s2 (next_obj s1 + i) = objs s1 (hs ! i)"
      unfolding s2_def using that by (intro copy_all_new) (simp_all add: s1)
    with that show ?thesis
      by (simp add: o' old4 s3 s1)
  qed
  show "objs s' (next_obj s + length hs + j) = objs s (add ! j)"
    if "j < length add" "add ! j < next_obj s" for j
  proof -
    have "objs s4 (next_obj s3 + j) = objs s3 (add ! j)"
      unfolding s4_def using that by (intro copy_all_new) (simp_all add: s3 s2)
    with that show ?thesis
      by (simp add: o' s3 s2 old2)
  qed
qed

lemma duplicates_upt:
  assumes "\<And>i. i < length hs \<Longrightarrow> objs s' (k + i) = objs s (hs ! i)" and "next_obj s \<le> k"
  shows "duplicates s hs s' [k..<k + length hs]"
  using assms by (simp add: duplicates_def list_all2_conv_all_nth)

text \<open>
  Claim C9. In the dispatcher that \<open>copy\<close> returns, the handlers array starts with one
  duplicate of each handler of the handlers array of the original, followed by one
  duplicate of each additional handler; the inheritableHandlers array holds all the
  duplicates of the first kind, whether or not their originals were inheritable in the
  original dispatcher, and those of the second kind exactly when \<open>inherit\<close> is true.
  (The dispatcher and the handlers passed are objects of the store.)
\<close>

theorem copy_marks_all_inheritable:
  fixes s :: state and d :: mref and additional :: "href list option" and inherit :: bool
  defines "add \<equiv> (case additional of None \<Rightarrow> [] | Some xs \<Rightarrow> xs)"
    and "m \<equiv> fst (copy d additional inherit s)"
    and "s' \<equiv> snd (copy d additional inherit s)"
    and "n \<equiv> length (handlers_of s d)"
  assumes "allocated s d"
    and "list_all (\<lambda>h. h < next_obj s) (handlers_of s d)"
    and "list_all (\<lambda>h. h < next_obj s) add"
  shows "duplicates s (handlers_of s d) s' (take n (handlers_of s' m)) \<and>
         duplicates s add s' (drop n (handlers_of s' m)) \<and>
         inheritable_of s' m =
           take n (handlers_of s' m) @ (if inherit then drop n (handlers_of s' m) else [])"
proof -
  let ?hs = "arrs s (handlers (mgrs s d))"
  let ?cs = "[next_obj s..<next_obj s + length ?hs]"
  let ?as = "[next_obj s + length ?hs..<next_obj s + length ?hs + length add]"
  note f = copy_facts [OF assms(5), where additional = additional and inherit = inherit,
      folded add_def m_def s'_def]
  have n: "n = length ?hs"
    by (simp add: n_def handlers_of_def)
  have H: "handlers_of s' m = ?cs @ ?as"
    by (simp add: handlers_of_def f(1) f(2) f(3))
  have I: "inheritable_of s' m = ?cs @ (if inherit then ?as else [])"
    by (simp add: inheritable_of_def f(1) f(2) f(3))
  have t: "take n (handlers_of s' m) = ?cs" and dr: "drop n (handlers_of s' m) = ?as"
    by (simp_all add: H n)
  have "duplicates s ?hs s' ?cs"
    using assms(6) by (intro duplicates_upt f(9)) (simp_all add: handlers_of_def list_all_length)
  moreover have "duplicates s add s' ?as"
    using assms(7) by (intro duplicates_upt f(10)) (simp_all add: list_all_length)
  ultimately show ?thesis
    by (simp add: t dr I) (simp add: handlers_of_def)
qed

text \<open>
  On the example store the handlers 1 and 2 are not inheritable in dispatcher 0; their
  duplicates 5 and 6 are inheritable in the copy, and the duplicate 7 of the additional
  handler 3, copied with \<open>inherit = false\<close>, is not.
\<close>

theorem copy_marks_all_inheritable_witness:
  "allocated ex_state 0 \<and>
   list_all (\<lambda>h. h < next_obj ex_state) (handlers_of ex_state 0) \<and>
   list_all (\<lambda>h. h < next_obj ex_state) [3] \<and>
   handlers_of ex_state 0 = [0, 1, 2] \<and>
   inheritable_of ex_state 0 = [0] \<and>
   handlers_of (snd (copy 0 (Some [3]) False ex_state)) (fst (copy 0 (Some [3]) False ex_state))
     = [4, 5, 6, 7] \<and>
   inheritable_of (snd (copy 0 (Some [3]) False ex_state)) (fst (copy 0 (Some [3]) False ex_state))
     = [4, 5, 6]"
proof -
  have a: "allocated ex_state 0"
    by (simp add: allocated_def ex_state_def)
  have b: "handlers_of ex_state 0 = [0, 1, 2]" and c: "inheritable_of ex_state 0 = [0]"
    by (simp_all add: handlers_of_def inheritable_of_def ex_state_def)
  have d: "list_all (\<lambda>h. h < next_obj ex_state) (handlers_of ex_state 0)"
    unfolding b by (simp add: ex_state_def)
  have e: "list_all (\<lambda>h. h < next_obj ex_state) [3]"
    by (simp add: ex_state_def)
  have e': "list_all (\<lambda>h. h < next_obj ex_state) (case Some [3] of None \<Rightarrow> [] | Some xs \<Rightarrow> xs)"
    using e by simp
  note f = copy_facts [OF a, where additional = "Some [3]" and inherit = False]
  have h: "handlers_of (snd (copy 0 (Some [3]) False ex_state)) (fst (copy 0 (Some [3]) False ex_state))
     = [4, 5, 6, 7]"
    using b by (simp add: handlers_of_def f(1) f(2) f(3)) (simp add: ex_state_def upt_rec)
  from copy_marks_all_inheritable [OF a d e', where inherit = False]
  have "inheritable_of (snd (copy 0 (Some [3]) False ex_state)) (fst (copy 0 (Some [3]) False ex_state))
     = take 3 [4, 5, 6, 7]"
    by (simp add: h b)
  with a b c d e h show ?thesis by simp
qed


subsection \<open>configure\<close>

lemma fold_addHandler_env:
  "LANGCHAIN_TRACING (fold (\<lambda>c. addHandler m c inh) cs s) = LANGCHAIN_TRACING s"
  by (induction cs arbitrary: s) (simp_all add: addHandler_eq)

lemma copy_env: "LANGCHAIN_TRACING (snd (copy d additional inherit s)) = LANGCHAIN_TRACING s"
  by (simp add: copy_unfold Let_def fold_addHandler_env copy_all_proj setHandlers_eq
        new_CallbackManager_eq)

lemma configure_inherited_env:
  "LANGCHAIN_TRACING (snd (configure_inherited i l s)) = LANGCHAIN_TRACING s"
  by (simp add: configure_inherited_def case_prod_beta copy_env setHandlers_eq
        new_CallbackManager_eq split: option.split inheritable_source.split)

lemma configure_inherited_none:
  "fst (configure_inherited i l s) = None \<longleftrightarrow> i = None \<and> l = None"
  by (simp add: configure_inherited_def case_prod_beta)

lemma configure_ambient_none:
  "fst (configure_ambient options cm s) = None \<longleftrightarrow>
     cm = None \<and> \<not> verbose_requested options \<and> LANGCHAIN_TRACING s = None"
  by (simp add: configure_ambient_def case_prod_beta Let_def)

text \<open>
  Claim C6. configure returns undefined exactly when no inheritable source is given, no
  list of local handlers is given, verbose is not requested and LANGCHAIN_TRACING is not
  set in the environment; in every other case it returns a dispatcher.
\<close>

theorem configure_undefined_iff:
  "fst (configure inheritableSource localHandlers options s) = None \<longleftrightarrow>
     inheritableSource = None \<and> localHandlers = None \<and> \<not> verbose_requested options \<and>
     LANGCHAIN_TRACING s = None"
  by (simp add: configure_def case_prod_beta configure_ambient_none configure_inherited_none
        configure_inherited_env)

lemma names_upt:
  assumes "\<And>i. i < length hs \<Longrightarrow> objs s' (k + i) = objs s (hs ! i)"
  shows "names s' [k..<k + length hs] = names s hs"
  using assms by (intro nth_equalityI) (simp_all add: names_def)

lemma copy_based_on:
  fixes l :: "href list option"
  assumes al: "allocated sa cm"
    and hs: "list_all (\<lambda>h. h < next_obj sa) (handlers_of sa cm)"
    and lo: "list_all (\<lambda>h. h < next_obj sa) (locals l)"
    and fr: "next_arr s \<le> next_arr sa" "next_mgr s \<le> next_mgr sa" "next_obj sa = next_obj s"
      "objs sa = objs s" "\<forall>a<next_arr s. arrs sa a = arrs s a"
      "\<forall>m'<next_mgr s. mgrs sa m' = mgrs s m'" "LANGCHAIN_TRACING sa = LANGCHAIN_TRACING s"
  shows "based_on s (handlers_of sa cm @ locals l) (fst (copy cm l False sa)) (snd (copy cm l False sa))"
proof -
  let ?s1 = "snd (copy cm l False sa)" and ?m = "fst (copy cm l False sa)"
  let ?hs = "arrs sa (handlers (mgrs sa cm))"
  note f = copy_facts [OF al, where additional = l and inherit = False, folded locals_def]
  have m: "?m = next_mgr sa" by (rule f(1))
  have H: "handlers_of ?s1 ?m =
      [next_obj sa..<next_obj sa + length ?hs] @
      [next_obj sa + length ?hs..<next_obj sa + length ?hs + length (locals l)]"
    by (simp add: handlers_of_def f(1) f(2) f(3))
  have n1: "names ?s1 [next_obj sa..<next_obj sa + length ?hs] = names sa ?hs"
    using hs by (intro names_upt f(9)) (simp_all add: handlers_of_def list_all_length)
  have n2: "names ?s1 [next_obj sa + length ?hs..<next_obj sa + length ?hs + length (locals l)]
              = names sa (locals l)"
    using lo by (intro names_upt f(10)) (simp_all add: list_all_length)
  have nm: "names ?s1 (handlers_of ?s1 ?m) = names s (handlers_of sa cm @ locals l)"
    unfolding H using n1 n2 fr(4) by (simp add: names_def handlers_of_def)
  have all: "list_all (\<lambda>h. h < next_obj ?s1) (handlers_of ?s1 ?m)"
    unfolding H by (auto simp add: f(6) list_all_iff)
  have a1: "allocated ?s1 ?m"
    by (simp add: allocated_def f(1) f(2) f(4) f(5))
  have "\<forall>a<next_arr s. arrs ?s1 a = arrs s a"
    using fr(1) fr(5) by (simp add: f(3))
  moreover have "\<forall>m'<next_mgr s. mgrs ?s1 m' = mgrs s m'"
    using fr(2) fr(6) by (simp add: f(2))
  moreover have "\<forall>r<next_obj s. objs ?s1 r = objs s r"
    using fr(3) fr(4) f(8) by simp
  ultimately show ?thesis
    unfolding based_on_def using a1 all nm fr
    by (simp add: f(1) f(2) f(4) f(5) f(6) f(7))
qed

lemma configure_inherited_based_on:
  assumes "i \<noteq> None \<or> l \<noteq> None"
    and "source_allocated s i"
    and "list_all (\<lambda>h. h < next_obj s) (locals l)"
  shows "\<exists>m. fst (configure_inherited i l s) = Some m \<and>
             based_on s (source_handlers s i @ locals l) m (snd (configure_inherited i l s))"
proof -
  have list: "\<exists>m. fst (configure_inherited i l s) = Some m \<and>
             based_on s (hs @ locals l) m (snd (configure_inherited i l s))"
    if i: "configure_inherited i l s =
             (case copy (next_mgr s) l False (setHandlers (next_mgr s) hs True
                      (snd (new_CallbackManager None s))) of (m, sb) \<Rightarrow> (Some m, sb))"
      and hs: "list_all (\<lambda>h. h < next_obj s) hs" for hs
  proof -
    let ?sa = "setHandlers (next_mgr s) hs True (snd (new_CallbackManager None s))"
    have al: "allocated ?sa (next_mgr s)"
      by (simp add: allocated_def setHandlers_eq new_CallbackManager_eq)
    have ho: "handlers_of ?sa (next_mgr s) = hs"
      by (simp add: handlers_of_def setHandlers_eq new_CallbackManager_eq)
    have "based_on s (handlers_of ?sa (next_mgr s) @ locals l)
            (fst (copy (next_mgr s) l False ?sa)) (snd (copy (next_mgr s) l False ?sa))"
      using hs assms(3)
      by (intro copy_based_on al) (simp_all add: ho, simp_all add: setHandlers_eq new_CallbackManager_eq)
    then show ?thesis
      by (simp add: i ho case_prod_beta)
  qed
  show ?thesis
  proof (cases i)
    case None
    with assms(1) have "l \<noteq> None" by simp
    with None have "configure_inherited i l s =
             (case copy (next_mgr s) l False (setHandlers (next_mgr s) [] True
                      (snd (new_CallbackManager None s))) of (m, sb) \<Rightarrow> (Some m, sb))"
      by (simp add: configure_inherited_def new_CallbackManager_eq)
    from list [OF this] None show ?thesis
      by (simp add: source_handlers_def)
  next
    case (Some src)
    show ?thesis
    proof (cases src)
      case (Manager d)
      with Some assms(2) have al: "allocated s d"
        and hs: "list_all (\<lambda>h. h < next_obj s) (handlers_of s d)"
        by (simp_all add: source_allocated_def source_handlers_def)
      have "based_on s (handlers_of s d @ locals l) (fst (copy d l False s)) (snd (copy d l False s))"
        using hs assms(3) by (intro copy_based_on al) simp_all
      with Some Manager show ?thesis
        by (simp add: configure_inherited_def source_handlers_def case_prod_beta)
    next
      case (HandlerList hs)
      with Some assms(2) have hs: "list_all (\<lambda>h. h < next_obj s) hs"
        by (simp add: source_allocated_def source_handlers_def)
      from Some HandlerList have "configure_inherited i l s =
             (case copy (next_mgr s) l False (setHandlers (next_mgr s) hs True
                      (snd (new_CallbackManager None s))) of (m, sb) \<Rightarrow> (Some m, sb))"
        by (simp add: configure_inherited_def new_CallbackManager_eq)
      from list [OF this hs] Some HandlerList show ?thesis
        by (simp add: source_handlers_def)
    qed
  qed
qed

lemma names_cong:
  assumes "\<And>h. h \<in> set hs \<Longrightarrow> objs s' h = objs s h"
  shows "names s' hs = names s hs"
  using assms by (simp add: names_def)

lemma tracers_zero: "tracers s hs = 0 \<longleftrightarrow> \<not> list_ex (\<lambda>h. name (objs s h) = ''langchain_tracer'') hs"
  by (force simp add: tracers_def names_def list_ex_iff count_list_0_iff image_iff)

lemma names_append: "names s (xs @ ys) = names s xs @ names s ys"
  by (simp add: names_def)

lemma configure_ambient_frame:
  fixes options :: "CallbackManagerOptions option" and cm :: mref and s1 :: state
  defines "s' \<equiv> snd (configure_ambient options (Some cm) s1)"
  shows "fst (configure_ambient options (Some cm) s1) = Some cm"
    and "mgrs s' = mgrs s1"
    and "next_arr s' = next_arr s1"
    and "next_mgr s' = next_mgr s1"
    and "LANGCHAIN_TRACING s' = LANGCHAIN_TRACING s1"
    and "\<And>a. a \<noteq> handlers (mgrs s1 cm) \<Longrightarrow> a \<noteq> inheritableHandlers (mgrs s1 cm) \<Longrightarrow>
           arrs s' a = arrs s1 a"
    and "\<And>r. r < next_obj s1 \<Longrightarrow> objs s' r = objs s1 r"
    and "next_obj s1 \<le> next_obj s'"
proof -
  let ?a1 = "handlers (mgrs s1 cm)" and ?a2 = "inheritableHandlers (mgrs s1 cm)"
  let ?O = "next_obj s1"
  show "fst (configure_ambient options (Some cm) s1) = Some cm"
    by (simp add: configure_ambient_def case_prod_beta Let_def)
  show "mgrs s' = mgrs s1" "next_arr s' = next_arr s1" "next_mgr s' = next_mgr s1"
    "LANGCHAIN_TRACING s' = LANGCHAIN_TRACING s1"
    by (simp_all add: s'_def configure_ambient_def case_prod_beta Let_def new_object_def
          getTracingCallbackHandler_def addHandler_eq)
  show "arrs s' a = arrs s1 a" if "a \<noteq> ?a1" "a \<noteq> ?a2" for a
    using that
    by (simp add: s'_def configure_ambient_def case_prod_beta Let_def new_object_def
          getTracingCallbackHandler_def addHandler_eq)
  show "objs s' r = objs s1 r" if "r < ?O" for r
    using that
    by (simp add: s'_def configure_ambient_def case_prod_beta Let_def new_object_def
          getTracingCallbackHandler_def addHandler_eq)
  show "?O \<le> next_obj s'"
    by (simp add: s'_def configure_ambient_def case_prod_beta Let_def new_object_def
          getTracingCallbackHandler_def addHandler_eq)
qed

lemma configure_ambient_tracers:
  fixes options :: "CallbackManagerOptions option" and cm :: mref and s1 :: state
  assumes al: "allocated s1 cm"
    and hs: "list_all (\<lambda>h. h < next_obj s1) (handlers_of s1 cm)"
  defines "s' \<equiv> snd (configure_ambient options (Some cm) s1)"
  shows "list_all (\<lambda>h. h < next_obj s') (handlers_of s' cm)"
    and "tracers s' (handlers_of s' cm) =
           (if LANGCHAIN_TRACING s1 \<noteq> None \<and> tracers s1 (handlers_of s1 cm) = 0 then 1
            else tracers s1 (handlers_of s1 cm))"
proof -
  let ?a1 = "handlers (mgrs s1 cm)" and ?a2 = "inheritableHandlers (mgrs s1 cm)"
  let ?H = "arrs s1 ?a1" and ?O = "next_obj s1"
  have ne: "?a1 \<noteq> ?a2"
    using al by (simp add: allocated_def)
  have lt: "\<And>h. h \<in> set ?H \<Longrightarrow> h < ?O"
    using hs by (simp add: handlers_of_def list_all_iff)
  define s3 where "s3 = snd (new_object ConsoleCallbackHandler s1)"
  define C where "C \<longleftrightarrow> verbose_requested options \<and>
     \<not> list_ex (\<lambda>handler. name (objs s3 handler) = name (objs s3 ?O)) (arrs s3 (handlers (mgrs s3 cm)))"
  define s4 where "s4 = (if C then addHandler cm ?O False s3 else s3)"
  define T where "T \<longleftrightarrow> LANGCHAIN_TRACING s4 \<noteq> None \<and>
     \<not> list_ex (\<lambda>handler. name (objs s4 handler) = ''langchain_tracer'') (arrs s4 (handlers (mgrs s4 cm)))"
  define s5 where "s5 = (if T then addHandler cm (next_obj s4) True (snd (new_object LangChainTracer s4))
                         else s4)"
  have s3: "objs s3 = (objs s1)(?O := ConsoleCallbackHandler)" "next_obj s3 = Suc ?O"
    "arrs s3 = arrs s1" "mgrs s3 = mgrs s1" "LANGCHAIN_TRACING s3 = LANGCHAIN_TRACING s1"
    by (simp_all add: s3_def new_object_def)
  have s4: "objs s4 = objs s3" "next_obj s4 = Suc ?O" "mgrs s4 = mgrs s1"
    "LANGCHAIN_TRACING s4 = LANGCHAIN_TRACING s1"
    "arrs s4 ?a1 = ?H @ (if C then [?O] else [])"
    by (simp_all add: s4_def addHandler_eq s3)
  have n4: "names s4 ?H = names s1 ?H"
    using lt by (intro names_cong) (auto simp add: s4 s3)
  have c4: "names s4 (if C then [?O] else []) = (if C then [''console_callback_handler''] else [])"
    by (simp add: names_def s4 s3 ConsoleCallbackHandler_def)
  have "names s4 (arrs s4 ?a1) = names s1 ?H @ (if C then [''console_callback_handler''] else [])"
    unfolding s4(5) names_append n4 c4 ..
  then have t4: "tracers s4 (arrs s4 ?a1) = tracers s1 ?H"
    by (simp add: tracers_def)
  have T: "T \<longleftrightarrow> LANGCHAIN_TRACING s1 \<noteq> None \<and> tracers s1 ?H = 0"
    unfolding T_def by (simp add: s4(3,4) t4 [symmetric] tracers_zero)
  have s5: "arrs s5 ?a1 = arrs s4 ?a1 @ (if T then [Suc ?O] else [])"
    "mgrs s5 = mgrs s1" "next_obj s5 = (if T then Suc (Suc ?O) else Suc ?O)"
    "objs s5 = (if T then (objs s4)(Suc ?O := LangChainTracer) else objs s4)"
    using ne by (simp_all add: s5_def addHandler_eq new_object_def s4)
  have n5: "names s5 (arrs s4 ?a1) = names s4 (arrs s4 ?a1)"
  proof (intro names_cong)
    fix h
    assume "h \<in> set (arrs s4 ?a1)"
    then have "h < Suc ?O"
      using lt by (auto simp add: s4(5) less_Suc_eq split: if_splits)
    then show "objs s5 h = objs s4 h"
      by (simp add: s5)
  qed
  have c5: "names s5 (if T then [Suc ?O] else []) = (if T then [''langchain_tracer''] else [])"
    by (simp add: names_def s5 LangChainTracer_def)
  have "names s5 (arrs s5 ?a1) = names s4 (arrs s4 ?a1) @ (if T then [''langchain_tracer''] else [])"
    unfolding s5(1) names_append n5 c5 ..
  then have t5: "tracers s5 (arrs s5 ?a1) = tracers s1 ?H + (if T then 1 else 0)"
    using t4 by (simp add: tracers_def)
  have all5: "list_all (\<lambda>h. h < next_obj s5) (arrs s5 ?a1)"
    using lt by (auto simp add: s5 s4 list_all_iff less_Suc_eq)
  have res: "s' = (if verbose_requested options \<or> LANGCHAIN_TRACING s1 \<noteq> None then s5 else s1)"
    by (simp add: s'_def configure_ambient_def case_prod_beta Let_def s5_def T_def s4_def C_def
          s3_def getTracingCallbackHandler_def new_object_def)
  show "list_all (\<lambda>h. h < next_obj s') (handlers_of s' cm)"
    using all5 hs by (simp add: res handlers_of_def s5)
  show "tracers s' (handlers_of s' cm) =
           (if LANGCHAIN_TRACING s1 \<noteq> None \<and> tracers s1 (handlers_of s1 cm) = 0 then 1
            else tracers s1 (handlers_of s1 cm))"
    using t5 T by (auto simp add: res handlers_of_def s5)
qed

lemma configure_ambient_None:
  assumes "verbose_requested options \<or> LANGCHAIN_TRACING s \<noteq> None"
  shows "configure_ambient options None s =
           configure_ambient options (Some (next_mgr s)) (snd (new_CallbackManager None s))"
  using assms by (simp add: configure_ambient_def new_CallbackManager_eq)

lemma based_on_ambient:
  fixes options :: "CallbackManagerOptions option"
  assumes b: "based_on s hs m s1"
  defines "s' \<equiv> snd (configure_ambient options (Some m) s1)"
  shows "fst (configure_ambient options (Some m) s1) = Some m"
    and "allocated s' m"
    and "list_all (\<lambda>h. h < next_obj s') (handlers_of s' m)"
    and "LANGCHAIN_TRACING s' = LANGCHAIN_TRACING s"
    and "next_obj s \<le> next_obj s'"
    and "\<And>r. r < next_obj s \<Longrightarrow> objs s' r = objs s r"
    and "tracers s' (handlers_of s' m) =
           (if LANGCHAIN_TRACING s \<noteq> None \<and> tracers s hs = 0 then 1 else tracers s hs)"
proof -
  from b have al: "allocated s1 m"
    and all: "list_all (\<lambda>h. h < next_obj s1) (handlers_of s1 m)"
    and env: "LANGCHAIN_TRACING s1 = LANGCHAIN_TRACING s"
    and nm: "names s1 (handlers_of s1 m) = names s hs"
    and no: "next_obj s \<le> next_obj s1"
    and ob: "\<forall>r<next_obj s. objs s1 r = objs s r"
    by (simp_all add: based_on_def)
  note f = configure_ambient_frame [where options = options and cm = m and ?s1.0 = s1, folded s'_def]
  note t = configure_ambient_tracers [OF al all, where options = options, folded s'_def]
  show "fst (configure_ambient options (Some m) s1) = Some m" by (rule f(1))
  show "allocated s' m"
    using al by (simp add: allocated_def f(2) f(3) f(4))
  show "list_all (\<lambda>h. h < next_obj s') (handlers_of s' m)" by (rule t(1))
  show "LANGCHAIN_TRACING s' = LANGCHAIN_TRACING s" by (simp add: f(5) env)
  show "next_obj s \<le> next_obj s'" using no f(8) by simp
  show "objs s' r = objs s r" if "r < next_obj s" for r
    using that no ob by (simp add: f(7))
  have "tracers s1 (handlers_of s1 m) = tracers s hs"
    by (simp add: tracers_def nm)
  then show "tracers s' (handlers_of s' m) =
           (if LANGCHAIN_TRACING s \<noteq> None \<and> tracers s hs = 0 then 1 else tracers s hs)"
    by (simp add: t(2) env)
qed

lemma new_manager_based_on:
  "based_on s [] (next_mgr s) (snd (new_CallbackManager None s))"
  by (simp add: based_on_def new_CallbackManager_eq allocated_def handlers_of_def names_def)

lemma configure_based_on:
  assumes "source_allocated s i"
    and "list_all (\<lambda>h. h < next_obj s) (locals l)"
    and "i \<noteq> None \<or> l \<noteq> None \<or> verbose_requested options \<or> LANGCHAIN_TRACING s \<noteq> None"
  shows "\<exists>m s1. based_on s (source_handlers s i @ locals l) m s1 \<and>
           configure i l options s = configure_ambient options (Some m) s1"
proof (cases "i \<noteq> None \<or> l \<noteq> None")
  case True
  from configure_inherited_based_on [OF True assms(1) assms(2)]
  obtain m where "fst (configure_inherited i l s) = Some m"
    and "based_on s (source_handlers s i @ locals l) m (snd (configure_inherited i l s))"
    by blast
  then show ?thesis
    by (auto simp add: configure_def case_prod_beta)
next
  case False
  with assms(3) have "verbose_requested options \<or> LANGCHAIN_TRACING s \<noteq> None"
    by simp
  from configure_ambient_None [OF this] False
  have "configure i l options s =
          configure_ambient options (Some (next_mgr s)) (snd (new_CallbackManager None s))"
    by (simp add: configure_def configure_inherited_def)
  moreover from False have "source_handlers s i @ locals l = []"
    by (simp add: source_handlers_def locals_def)
  ultimately show ?thesis
    using new_manager_based_on by metis
qed

lemma tracers_append: "tracers s (xs @ ys) = tracers s xs + tracers s ys"
  by (simp add: tracers_def names_def)

lemma tracers_cong:
  assumes "list_all (\<lambda>h. h < n) hs" and "\<And>r. r < n \<Longrightarrow> objs s' r = objs s r"
  shows "tracers s' hs = tracers s hs"
proof -
  have "names s' hs = names s hs"
    using assms by (intro names_cong) (simp add: list_all_iff)
  then show ?thesis by (simp add: tracers_def)
qed

lemma configure_tracers:
  fixes options :: "CallbackManagerOptions option"
  assumes "source_allocated s i"
    and "list_all (\<lambda>h. h < next_obj s) (locals l)"
    and "i \<noteq> None \<or> l \<noteq> None \<or> verbose_requested options \<or> LANGCHAIN_TRACING s \<noteq> None"
  defines "m \<equiv> the (fst (configure i l options s))"
    and "s' \<equiv> snd (configure i l options s)"
    and "t \<equiv> tracers s (source_handlers s i) + tracers s (locals l)"
  shows "fst (configure i l options s) = Some m"
    and "allocated s' m"
    and "list_all (\<lambda>h. h < next_obj s') (handlers_of s' m)"
    and "LANGCHAIN_TRACING s' = LANGCHAIN_TRACING s"
    and "next_obj s \<le> next_obj s'"
    and "\<And>r. r < next_obj s \<Longrightarrow> objs s' r = objs s r"
    and "tracers s' (handlers_of s' m) = (if LANGCHAIN_TRACING s \<noteq> None \<and> t = 0 then 1 else t)"
proof -
  from configure_based_on [OF assms(1-3)]
  obtain m0 s1 where b: "based_on s (source_handlers s i @ locals l) m0 s1"
    and c: "configure i l options s = configure_ambient options (Some m0) s1"
    by blast
  note f = based_on_ambient [OF b, where options = options, folded c]
  have m: "m = m0"
    by (simp add: m_def f(1))
  show "fst (configure i l options s) = Some m"
    by (simp add: m f(1))
  show "allocated s' m" "list_all (\<lambda>h. h < next_obj s') (handlers_of s' m)"
    "LANGCHAIN_TRACING s' = LANGCHAIN_TRACING s" "next_obj s \<le> next_obj s'"
    unfolding s'_def m by (rule f)+
  show "objs s' r = objs s r" if "r < next_obj s" for r
    unfolding s'_def using that by (rule f(6))
  show "tracers s' (handlers_of s' m) = (if LANGCHAIN_TRACING s \<noteq> None \<and> t = 0 then 1 else t)"
    unfolding s'_def m t_def using f(7) by (simp add: tracers_append)
qed

text \<open>
  Claim C10. When configure is given an existing (allocated) dispatcher as its first
  argument, it returns a new dispatcher, and the supplied one is unchanged: the same
  fields, and the same handlers in its handlers and inheritableHandlers arrays. The local
  handlers, the console handler and the tracer are added to the copy.
\<close>

theorem configure_leaves_supplied_dispatcher:
  fixes options :: "CallbackManagerOptions option" and l :: "href list option"
    and d :: mref and s :: state
  defines "s' \<equiv> snd (configure (Some (Manager d)) l options s)"
  assumes "allocated s d"
  shows "fst (configure (Some (Manager d)) l options s) = Some (next_mgr s) \<and>
         mgrs s' d = mgrs s d \<and>
         handlers_of s' d = handlers_of s d \<and>
         inheritable_of s' d = inheritable_of s d"
proof -
  let ?m = "fst (copy d l False s)" and ?s1 = "snd (copy d l False s)"
  note c = copy_facts [OF assms(2), where additional = l and inherit = False]
  have conf: "configure (Some (Manager d)) l options s = configure_ambient options (Some ?m) ?s1"
    by (simp add: configure_def configure_inherited_def case_prod_beta)
  note f = configure_ambient_frame [where options = options and cm = ?m and ?s1.0 = ?s1,
      folded conf, folded s'_def]
  from assms(2) have d: "d < next_mgr s" and h: "handlers (mgrs s d) < next_arr s"
    and i: "inheritableHandlers (mgrs s d) < next_arr s"
    by (simp_all add: allocated_def)
  have m: "mgrs s' d = mgrs s d"
    using d by (simp add: f(2) c(2))
  have a: "arrs s' a = arrs s a" if "a < next_arr s" for a
  proof -
    have "arrs s' a = arrs ?s1 a"
      using that by (intro f(6)) (simp_all add: c(1) c(2))
    with that show ?thesis by (simp add: c(3))
  qed
  show ?thesis
    using m a [OF h] a [OF i] by (simp add: f(1) c(1) handlers_of_def inheritable_of_def)
qed

theorem configure_leaves_supplied_dispatcher_witness:
  "allocated ex_state 0 \<and>
   fst (configure (Some (Manager 0)) (Some [3]) (Some \<lparr>verbose = Some True, tracing = None\<rparr>) ex_state)
     = Some 1 \<and>
   handlers_of
     (snd (configure (Some (Manager 0)) (Some [3]) (Some \<lparr>verbose = Some True, tracing = None\<rparr>) ex_state))
     0 = [0, 1, 2] \<and>
   inheritable_of
     (snd (configure (Some (Manager 0)) (Some [3]) (Some \<lparr>verbose = Some True, tracing = None\<rparr>) ex_state))
     0 = [0]"
proof -
  have a: "allocated ex_state 0"
    by (simp add: allocated_def ex_state_def)
  have b: "handlers_of ex_state 0 = [0, 1, 2]" "inheritable_of ex_state 0 = [0]"
    "next_mgr ex_state = 1"
    by (simp_all add: handlers_of_def inheritable_of_def ex_state_def)
  from configure_leaves_supplied_dispatcher [OF a, where l = "Some [3]"
      and options = "Some \<lparr>verbose = Some True, tracing = None\<rparr>"] a
  show ?thesis
    by (simp add: b)
qed

text \<open>
  Claim C7. With LANGCHAIN_TRACING set, a configure call whose source already holds a
  handler with the tracer name adds no tracer: the result holds as many handlers of that
  name as the source and the local handlers together. Hence, starting from a source and
  local handlers without the name, the first call registers one tracer, and a second call
  on its result (with local handlers without the name) still gives a dispatcher with
  exactly one. (The sources and the local handlers are objects of the store.)
\<close>

theorem configure_registers_tracer_once:
  fixes options options2 :: "CallbackManagerOptions option" and l l2 :: "href list option"
    and i :: "inheritable_source option" and s :: state
  defines "m1 \<equiv> the (fst (configure i l options s))"
    and "s1 \<equiv> snd (configure i l options s)"
  defines "m2 \<equiv> the (fst (configure (Some (Manager m1)) l2 options2 s1))"
    and "s2 \<equiv> snd (configure (Some (Manager m1)) l2 options2 s1)"
  assumes env: "LANGCHAIN_TRACING s \<noteq> None"
    and src: "source_allocated s i"
    and loc: "list_all (\<lambda>h. h < next_obj s) (locals l)"
    and loc2: "list_all (\<lambda>h. h < next_obj s1) (locals l2)"
  shows "(0 < tracers s (source_handlers s i) \<longrightarrow>
            tracers s1 (handlers_of s1 m1) = tracers s (source_handlers s i) + tracers s (locals l)) \<and>
         (tracers s (source_handlers s i) + tracers s (locals l) = 0 \<and> tracers s1 (locals l2) = 0 \<longrightarrow>
            tracers s1 (handlers_of s1 m1) = 1 \<and> tracers s2 (handlers_of s2 m2) = 1)"
proof -
  let ?t = "tracers s (source_handlers s i) + tracers s (locals l)"
  from env have trig: "i \<noteq> None \<or> l \<noteq> None \<or> verbose_requested options \<or> LANGCHAIN_TRACING s \<noteq> None"
    by simp
  note f = configure_tracers [OF src loc trig, folded m1_def s1_def]
  have one: "tracers s1 (handlers_of s1 m1) = (if ?t = 0 then 1 else ?t)"
    using f(7) env by simp
  have src1: "source_allocated s1 (Some (Manager m1))"
    using f(2) f(3) by (simp add: source_allocated_def source_handlers_def)
  have trig1: "Some (Manager m1) \<noteq> None \<or> l2 \<noteq> None \<or> verbose_requested options2 \<or>
               LANGCHAIN_TRACING s1 \<noteq> None"
    by simp
  note g = configure_tracers [OF src1 loc2 trig1, folded m2_def s2_def]
  have two: "tracers s2 (handlers_of s2 m2) = 1"
    if "?t = 0" "tracers s1 (locals l2) = 0"
    using that g(7) one env by (simp add: f(4) source_handlers_def)
  show ?thesis
    using one two by auto
qed

text \<open>
  On the example store with tracing on: from dispatcher 0, which has no tracer, two
  successive calls give one tracer each time; from the list holding the tracing handler 3,
  the call adds none.
\<close>

theorem configure_registers_tracer_once_witness:
  "LANGCHAIN_TRACING ex_traced \<noteq> None \<and>
   source_allocated ex_traced (Some (Manager 0)) \<and>
   tracers ex_traced (source_handlers ex_traced (Some (Manager 0))) = 0 \<and>
   tracers (snd (configure (Some (Manager 0)) None None ex_traced))
     (handlers_of (snd (configure (Some (Manager 0)) None None ex_traced))
        (the (fst (configure (Some (Manager 0)) None None ex_traced)))) = 1 \<and>
   tracers
     (snd (configure (Some (Manager (the (fst (configure (Some (Manager 0)) None None ex_traced)))))
             None None (snd (configure (Some (Manager 0)) None None ex_traced))))
     (handlers_of
        (snd (configure (Some (Manager (the (fst (configure (Some (Manager 0)) None None ex_traced)))))
                None None (snd (configure (Some (Manager 0)) None None ex_traced))))
        (the (fst (configure (Some (Manager (the (fst (configure (Some (Manager 0)) None None ex_traced)))))
                     None None (snd (configure (Some (Manager 0)) None None ex_traced)))))) = 1 \<and>
   source_allocated ex_traced (Some (HandlerList [3])) \<and>
   tracers ex_traced (source_handlers ex_traced (Some (HandlerList [3]))) = 1 \<and>
   tracers (snd (configure (Some (HandlerList [3])) None None ex_traced))
     (handlers_of (snd (configure (Some (HandlerList [3])) None None ex_traced))
        (the (fst (configure (Some (HandlerList [3])) None None ex_traced)))) = 1"
proof -
  have env: "LANGCHAIN_TRACING ex_traced \<noteq> None"
    by (simp add: ex_traced_def)
  have src: "source_allocated ex_traced (Some (Manager 0))"
    by (simp add: source_allocated_def source_handlers_def handlers_of_def allocated_def
          ex_traced_def ex_state_def)
  have t0: "tracers ex_traced (source_handlers ex_traced (Some (Manager 0))) = 0"
    by (simp add: tracers_def names_def source_handlers_def handlers_of_def
          ex_traced_def ex_state_def ex_handler_def)
  have src3: "source_allocated ex_traced (Some (HandlerList [3]))"
    by (simp add: source_allocated_def source_handlers_def ex_traced_def ex_state_def)
  have t3: "tracers ex_traced (source_handlers ex_traced (Some (HandlerList [3]))) = 1"
    by (simp add: tracers_def names_def source_handlers_def
          ex_traced_def ex_state_def LangChainTracer_def)
  have loc: "list_all (\<lambda>h. h < n) (locals None)" "tracers st (locals None) = 0" for n st
    by (simp_all add: locals_def tracers_def names_def)
  from configure_registers_tracer_once [where s = ex_traced and i = "Some (Manager 0)"
      and l = None and ?l2.0 = None and options = None and ?options2.0 = None,
      OF env src loc(1) loc(1)] t0 loc(2)
  have A: "tracers (snd (configure (Some (Manager 0)) None None ex_traced))
     (handlers_of (snd (configure (Some (Manager 0)) None None ex_traced))
        (the (fst (configure (Some (Manager 0)) None None ex_traced)))) = 1 \<and>
   tracers
     (snd (configure (Some (Manager (the (fst (configure (Some (Manager 0)) None None ex_traced)))))
             None None (snd (configure (Some (Manager 0)) None None ex_traced))))
     (handlers_of
        (snd (configure (Some (Manager (the (fst (configure (Some (Manager 0)) None None ex_traced)))))
                None None (snd (configure (Some (Manager 0)) None None ex_traced))))
        (the (fst (configure (Some (Manager (the (fst (configure (Some (Manager 0)) None None ex_traced)))))
                     None None (snd (configure (Some (Manager 0)) None None ex_traced)))))) = 1"
    by simp
  from configure_registers_tracer_once [where s = ex_traced and i = "Some (HandlerList [3])"
      and l = None and ?l2.0 = None and options = None and ?options2.0 = None,
      OF env src3 loc(1) loc(1)] t3 loc(2)
  have B: "tracers (snd (configure (Some (HandlerList [3])) None None ex_traced))
     (handlers_of (snd (configure (Some (HandlerList [3])) None None ex_traced))
        (the (fst (configure (Some (HandlerList [3])) None None ex_traced)))) = 1"
    by simp
  from env src t0 A src3 t3 B show ?thesis by simp
qed

end
